theory Spec2Isabelle
  imports Main "HOL-Library.Sublist"
begin

section \<open>Data model (types/index.ts)\<close>

text \<open>
  JavaScript numbers that the extension handles are counters, limits, lengths and millisecond
  timestamps; they are modelled as unbounded integers. Strings are lists of characters and
  \<open>length\<close> plays the role of \<open>String.length\<close>.
\<close>

record UserSettings =
  apiKey :: string
  tone :: string
  maxLength :: int
  defaultAction :: string
  rateLimit :: int
  stealthMode :: bool

text \<open>\<open>Partial<UserSettings>\<close>: every field may be absent (\<open>undefined\<close>).\<close>

record PartialSettings =
  p_apiKey :: "string option"
  p_tone :: "string option"
  p_maxLength :: "int option"
  p_defaultAction :: "string option"
  p_rateLimit :: "int option"
  p_stealthMode :: "bool option"

definition DEFAULT_SETTINGS :: UserSettings where
  "DEFAULT_SETTINGS =
     \<lparr>apiKey = '''', tone = ''professional'', maxLength = 500,
      defaultAction = ''insert'', rateLimit = 50, stealthMode = True\<rparr>"

record UsageData =
  count :: int
  resetDate :: int
  limit :: int

record GenerateReplyRequest =
  postText :: string
  authorName :: "string option"
  postDate :: "string option"

record GenerateReplyResponse =
  success :: bool
  reply :: "string option"
  error :: "string option"
  usageCount :: "int option"
  rateLimitReached :: "bool option"

text \<open>
  A thrown value: an \<open>Error\<close> object with its message, or any other value
  (for which \<open>error instanceof Error\<close> is false).
\<close>

datatype js_error = Error (message: string) | NonError

section \<open>String helpers\<close>

text \<open>\<open>String.prototype.includes\<close>: the argument occurs as a contiguous substring.\<close>

fun str_includes :: "string \<Rightarrow> string \<Rightarrow> bool" where
  "str_includes [] sub = (sub = [])"
| "str_includes (c # cs) sub = (prefix sub (c # cs) \<or> str_includes cs sub)"

text \<open>
  \<open>String.prototype.trim\<close> removes leading and trailing white space. Of the code units
  that JavaScript counts as white space, those that fit a \<open>char\<close> are tab, line feed,
  vertical tab, form feed, carriage return, space and no-break space.
\<close>

definition is_space :: "char \<Rightarrow> bool" where
  "is_space c = (of_char c \<in> {9, 10, 11, 12, 13, 32, 160 :: nat})"

definition trim :: "string \<Rightarrow> string" where
  "trim s = rev (dropWhile is_space (rev (dropWhile is_space s)))"

text \<open>Decimal rendering of an integer, as a template literal prints it.\<close>

definition digit_char :: "nat \<Rightarrow> char" where
  "digit_char d = char_of (48 + d)"

function string_of_nat :: "nat \<Rightarrow> string" where
  "string_of_nat n =
     (if n < 10 then [digit_char n] else string_of_nat (n div 10) @ [digit_char (n mod 10)])"
  by pat_completeness auto
termination
  by (relation "measure id") auto

declare string_of_nat.simps [simp del]

definition string_of_int :: "int \<Rightarrow> string" where
  "string_of_int i =
     (if i < 0 then CHR ''-'' # string_of_nat (nat (- i)) else string_of_nat (nat i))"

text \<open>\<open>Array.prototype.join(", ")\<close> on a list of strings.\<close>

fun join_comma :: "string list \<Rightarrow> string" where
  "join_comma [] = []"
| "join_comma [x] = x"
| "join_comma (x # y # ys) = x @ '', '' @ join_comma (y # ys)"

section \<open>Validation (utils/validation.ts)\<close>

definition validTones :: "string list" where
  "validTones = [''polite'', ''professional'', ''friendly'', ''concise'']"

definition validActions :: "string list" where
  "validActions = [''insert'', ''copy'']"

definition check_apiKey :: "string option \<Rightarrow> js_error + unit" where
  "check_apiKey k =
     (case k of
        None \<Rightarrow> Inr ()
      | Some key \<Rightarrow>
          if length key > 0 \<and> length key < 10
          then Inl (Error ''API key appears to be invalid (too short)'')
          else Inr ())"

definition check_tone :: "string option \<Rightarrow> js_error + unit" where
  "check_tone t =
     (case t of
        None \<Rightarrow> Inr ()
      | Some v \<Rightarrow>
          if v \<notin> set validTones
          then Inl (Error (''Invalid tone. Must be one of: '' @ join_comma validTones))
          else Inr ())"

definition check_maxLength :: "int option \<Rightarrow> js_error + unit" where
  "check_maxLength m =
     (case m of
        None \<Rightarrow> Inr ()
      | Some v \<Rightarrow>
          if v < 100 \<or> v > 1000
          then Inl (Error ''Max length must be between 100 and 1000 characters'')
          else Inr ())"

definition check_defaultAction :: "string option \<Rightarrow> js_error + unit" where
  "check_defaultAction a =
     (case a of
        None \<Rightarrow> Inr ()
      | Some v \<Rightarrow>
          if v \<notin> set validActions
          then Inl (Error (''Invalid default action. Must be one of: '' @ join_comma validActions))
          else Inr ())"

definition check_rateLimit :: "int option \<Rightarrow> js_error + unit" where
  "check_rateLimit r =
     (case r of
        None \<Rightarrow> Inr ()
      | Some v \<Rightarrow>
          if v < 1 \<or> v > 10000
          then Inl (Error ''Rate limit must be between 1 and 10000'')
          else Inr ())"

text \<open>
  \<open>validateSettings\<close>: the five checks run in the order of the source and the first one that
  fails throws. The \<open>typeof\<close> and \<open>isNaN\<close> tests are decided by the types of the fields.
\<close>

definition validateSettings :: "PartialSettings \<Rightarrow> js_error + unit" where
  "validateSettings s =
     (case check_apiKey (p_apiKey s) of Inl e \<Rightarrow> Inl e | Inr _ \<Rightarrow>
      case check_tone (p_tone s) of Inl e \<Rightarrow> Inl e | Inr _ \<Rightarrow>
      case check_maxLength (p_maxLength s) of Inl e \<Rightarrow> Inl e | Inr _ \<Rightarrow>
      case check_defaultAction (p_defaultAction s) of Inl e \<Rightarrow> Inl e | Inr _ \<Rightarrow>
      check_rateLimit (p_rateLimit s))"

text \<open>\<open>validatePostText\<close>: \<open>!text\<close> holds for the empty string only.\<close>

definition validatePostText :: "string \<Rightarrow> js_error + unit" where
  "validatePostText text =
     (if text = [] then Inl (Error ''Post text must be a non-empty string'')
      else let trimmed = trim text in
        if length trimmed = 0 then Inl (Error ''Post text cannot be empty'')
        else if length trimmed < 5 then Inl (Error ''Post text is too short (minimum 5 characters)'')
        else if length trimmed > 10000 then Inl (Error ''Post text is too long (maximum 10000 characters)'')
        else Inr ())"

section \<open>The persistent store and the outside world\<close>

text \<open>
  The two storage areas hold one key each: \<open>settings\<close> in \<open>chrome.storage.sync\<close> and
  \<open>usage\<close> in \<open>chrome.storage.local\<close>. The trace records, in order, every storage call and
  every call of the external generator that the code issues.
\<close>

datatype event =
    SyncGet
  | SyncSet PartialSettings
  | LocalGet
  | LocalSet UsageData
  | ApiCall string UserSettings

record world =
  sync_settings :: "PartialSettings option"
  local_usage :: "UsageData option"
  trace :: "event list"

definition emit :: "event \<Rightarrow> world \<Rightarrow> world" where
  "emit ev w = w\<lparr>trace := trace w @ [ev]\<rparr>"

text \<open>
  What the environment does during one invocation: the value of each \<open>Date.now()\<close> read,
  named by the function that reads it, and whether each storage call rejects.
\<close>

record env =
  now_getUsage :: int
  now_resetUsageIfExpired :: int
  now_getTimeUntilReset :: int
  handler_sync_get_fails :: bool
  local_get_fails :: bool
  sync_get_fails :: bool
  reset_set_fails :: bool
  track_set_fails :: bool

section \<open>Storage (utils/storage.ts)\<close>

text \<open>The object spread \<open>{ ...DEFAULT_SETTINGS, ...data.settings }\<close>.\<close>

definition merge_defaults :: "PartialSettings option \<Rightarrow> UserSettings" where
  "merge_defaults stored =
     (case stored of
        None \<Rightarrow> DEFAULT_SETTINGS
      | Some p \<Rightarrow>
          \<lparr>apiKey = (case p_apiKey p of None \<Rightarrow> apiKey DEFAULT_SETTINGS | Some v \<Rightarrow> v),
           tone = (case p_tone p of None \<Rightarrow> tone DEFAULT_SETTINGS | Some v \<Rightarrow> v),
           maxLength = (case p_maxLength p of None \<Rightarrow> maxLength DEFAULT_SETTINGS | Some v \<Rightarrow> v),
           defaultAction =
             (case p_defaultAction p of None \<Rightarrow> defaultAction DEFAULT_SETTINGS | Some v \<Rightarrow> v),
           rateLimit = (case p_rateLimit p of None \<Rightarrow> rateLimit DEFAULT_SETTINGS | Some v \<Rightarrow> v),
           stealthMode =
             (case p_stealthMode p of None \<Rightarrow> stealthMode DEFAULT_SETTINGS | Some v \<Rightarrow> v)\<rparr>)"

text \<open>A full settings object seen as a partial one: every field is present.\<close>

definition as_partial :: "UserSettings \<Rightarrow> PartialSettings" where
  "as_partial s =
     \<lparr>p_apiKey = Some (apiKey s), p_tone = Some (tone s), p_maxLength = Some (maxLength s),
      p_defaultAction = Some (defaultAction s), p_rateLimit = Some (rateLimit s),
      p_stealthMode = Some (stealthMode s)\<rparr>"

definition getSettings :: "bool \<Rightarrow> world \<Rightarrow> UserSettings \<times> world" where
  "getSettings get_fails w =
     (if get_fails then (DEFAULT_SETTINGS, emit SyncGet w)
      else (merge_defaults (sync_settings w), emit SyncGet w))"

definition saveSettings :: "bool \<Rightarrow> UserSettings \<Rightarrow> world \<Rightarrow> (js_error + unit) \<times> world" where
  "saveSettings set_fails settings w =
     (case validateSettings (as_partial settings) of
        Inl e \<Rightarrow> (Inl (Error ''Failed to save settings''), w)
      | Inr _ \<Rightarrow>
          if set_fails
          then (Inl (Error ''Failed to save settings''), emit (SyncSet (as_partial settings)) w)
          else (Inr (),
                emit (SyncSet (as_partial settings)) (w\<lparr>sync_settings := Some (as_partial settings)\<rparr>)))"

definition defaultUsage :: "int \<Rightarrow> UsageData" where
  "defaultUsage now =
     \<lparr>count = 0, resetDate = now + 24 * 60 * 60 * 1000, limit = rateLimit DEFAULT_SETTINGS\<rparr>"

definition getUsage :: "int \<Rightarrow> bool \<Rightarrow> world \<Rightarrow> UsageData \<times> world" where
  "getUsage now get_fails w =
     (if get_fails then (defaultUsage now, emit LocalGet w)
      else case local_usage w of
             None \<Rightarrow> (defaultUsage now, emit LocalGet w)
           | Some u \<Rightarrow> (u, emit LocalGet w))"

definition saveUsage :: "bool \<Rightarrow> UsageData \<Rightarrow> world \<Rightarrow> (js_error + unit) \<times> world" where
  "saveUsage set_fails usage w =
     (if set_fails then (Inl (Error ''Failed to save usage data''), emit (LocalSet usage) w)
      else (Inr (), emit (LocalSet usage) (w\<lparr>local_usage := Some usage\<rparr>)))"

definition resetUsageIfExpired :: "env \<Rightarrow> world \<Rightarrow> (js_error + UsageData) \<times> world" where
  "resetUsageIfExpired e w =
     (case getUsage (now_getUsage e) (local_get_fails e) w of (usage, w1) \<Rightarrow>
        let now = now_resetUsageIfExpired e in
        if now \<ge> resetDate usage then
          (case getSettings (sync_get_fails e) w1 of (settings, w2) \<Rightarrow>
             let resetUsage = \<lparr>count = 0, resetDate = now + 24 * 60 * 60 * 1000,
                               limit = rateLimit settings\<rparr> in
             (case saveUsage (reset_set_fails e) resetUsage w2 of
                (Inl err, w3) \<Rightarrow> (Inl err, w3)
              | (Inr _, w3) \<Rightarrow> (Inr resetUsage, w3)))
        else (Inr usage, w1))"

section \<open>Rate limiting (utils/rateLimit.ts)\<close>

definition getTimeUntilReset :: "int \<Rightarrow> int \<Rightarrow> string" where
  "getTimeUntilReset now reset_date =
     (let diff = reset_date - now in
      if diff \<le> 0 then ''now''
      else
        let hours = diff div (1000 * 60 * 60);
            minutes = (diff mod (1000 * 60 * 60)) div (1000 * 60)
        in if hours > 0 then string_of_int hours @ ''h '' @ string_of_int minutes @ ''m''
           else if minutes > 0 then string_of_int minutes @ ''m''
           else string_of_int (diff div 1000) @ ''s'')"

definition rate_limit_message :: "int \<Rightarrow> UsageData \<Rightarrow> string" where
  "rate_limit_message now usage =
     ''Rate limit reached. Resets in '' @ getTimeUntilReset now (resetDate usage)
       @ ''. Current usage: '' @ string_of_int (count usage) @ ''/'' @ string_of_int (limit usage)"

definition trackUsage :: "env \<Rightarrow> world \<Rightarrow> (js_error + UsageData) \<times> world" where
  "trackUsage e w =
     (case resetUsageIfExpired e w of
        (Inl err, w1) \<Rightarrow> (Inl err, w1)
      | (Inr usage, w1) \<Rightarrow>
          if count usage \<ge> limit usage
          then (Inl (Error (rate_limit_message (now_getTimeUntilReset e) usage)), w1)
          else
            let usage' = usage\<lparr>count := count usage + 1\<rparr> in
            (case saveUsage (track_set_fails e) usage' w1 of
               (Inl err, w2) \<Rightarrow> (Inl err, w2)
             | (Inr _, w2) \<Rightarrow> (Inr usage', w2)))"

section \<open>The gateway (serviceWorker.ts)\<close>

text \<open>
  \<open>sanitizePostText\<close> and \<open>callGeminiAPI\<close> come from \<open>utils/api.ts\<close> and are parameters
  here; either may throw. The \<open>console\<close> calls and the duration measurement have no effect on
  the response or the store and are left out.
\<close>

definition failure_response :: "js_error \<Rightarrow> GenerateReplyResponse" where
  "failure_response err =
     \<lparr>success = False, reply = None,
      error = Some (case err of Error m \<Rightarrow> m | NonError \<Rightarrow> ''Unknown error occurred''),
      usageCount = None,
      rateLimitReached =
        Some (case err of Error m \<Rightarrow> str_includes m ''Rate limit'' | NonError \<Rightarrow> False)\<rparr>"

definition handleGenerateReply ::
  "(string \<Rightarrow> js_error + string) \<Rightarrow> (string \<Rightarrow> UserSettings \<Rightarrow> js_error + string) \<Rightarrow>
   env \<Rightarrow> GenerateReplyRequest \<Rightarrow> world \<Rightarrow> GenerateReplyResponse \<times> world" where
  "handleGenerateReply sanitizePostText callGeminiAPI e request w =
     (case validatePostText (postText request) of
        Inl err \<Rightarrow> (failure_response err, w)
      | Inr _ \<Rightarrow>
     (case sanitizePostText (postText request) of
        Inl err \<Rightarrow> (failure_response err, w)
      | Inr sanitizedText \<Rightarrow>
     (case getSettings (handler_sync_get_fails e) w of (settings, w1) \<Rightarrow>
        if apiKey settings = [] \<or> length (trim (apiKey settings)) = 0
        then (failure_response (Error ''API key not configured''), w1)
        else
          (case trackUsage e w1 of
             (Inl err, w2) \<Rightarrow> (failure_response err, w2)
           | (Inr usage, w2) \<Rightarrow>
               (case callGeminiAPI sanitizedText settings of
                  Inl err \<Rightarrow> (failure_response err, emit (ApiCall sanitizedText settings) w2)
                | Inr text \<Rightarrow>
                    (\<lparr>success = True, reply = Some text, error = None,
                      usageCount = Some (count usage), rateLimitReached = Some False\<rparr>,
                     emit (ApiCall sanitizedText settings) w2))))))"

section \<open>The page (utils/dom.ts, components/Button.ts, contentScript.ts)\<close>

text \<open>
  The document is a tree of elements; an element is addressed by the path of child indices
  that leads to it from the root. The selectors of the source test the tag name and the class
  list only, so an element carries these two and its element children.
\<close>

datatype element = Element (tag: string) (classes: "string list") (children: "element list")

type_synonym selector = "string \<Rightarrow> string list \<Rightarrow> bool"

text \<open>\<open>SELECTORS.commentBox\<close>: \<open>.comments-comment-box__form, .comments-comment-box\<close>.\<close>

definition commentBox_selector :: selector where
  "commentBox_selector t cs =
     (''comments-comment-box__form'' \<in> set cs \<or> ''comments-comment-box'' \<in> set cs)"

definition toolbar_selector :: selector where
  "toolbar_selector t cs =
     (''comments-comment-box__toolbar'' \<in> set cs
      \<or> ''comments-comment-box-comment__text-editor-actions'' \<in> set cs)"

definition form_selector :: selector where
  "form_selector t cs = (t = ''form'')"

definition button_selector :: selector where
  "button_selector t cs = (''ai-reply-btn'' \<in> set cs)"

text \<open>
  \<open>query_all sel e\<close> lists, in document order, the paths of the elements of the tree \<open>e\<close>
  (the root included) that match; \<open>query_children\<close> does so for a list of siblings, the
  first of which has index \<open>i\<close>.
\<close>

fun query_all :: "selector \<Rightarrow> element \<Rightarrow> nat list list"
  and query_children :: "selector \<Rightarrow> nat \<Rightarrow> element list \<Rightarrow> nat list list" where
  "query_all sel (Element t cs ks) = (if sel t cs then [[]] else []) @ query_children sel 0 ks"
| "query_children sel i [] = []"
| "query_children sel i (k # ks) = map ((#) i) (query_all sel k) @ query_children sel (Suc i) ks"

text \<open>\<open>element.querySelectorAll\<close> and \<open>element.querySelector\<close> search the descendants only.\<close>

definition querySelectorAll :: "selector \<Rightarrow> element \<Rightarrow> nat list list" where
  "querySelectorAll sel e = query_children sel 0 (children e)"

definition querySelector :: "selector \<Rightarrow> element \<Rightarrow> nat list option" where
  "querySelector sel e = (case querySelectorAll sel e of [] \<Rightarrow> None | p # _ \<Rightarrow> Some p)"

fun element_at :: "element \<Rightarrow> nat list \<Rightarrow> element option" where
  "element_at e [] = Some e"
| "element_at e (i # p) =
     (if i < length (children e) then element_at (children e ! i) p else None)"

text \<open>\<open>appendChild\<close> on the element at a path: the new child becomes its last child.\<close>

fun appendChild :: "nat list \<Rightarrow> element \<Rightarrow> element \<Rightarrow> element" where
  "appendChild [] new (Element t cs ks) = Element t cs (ks @ [new])"
| "appendChild (i # p) new (Element t cs ks) =
     (if i < length ks then Element t cs (ks[i := appendChild p new (ks ! i)])
      else Element t cs ks)"

text \<open>\<open>document.querySelectorAll(SELECTORS.commentBox)\<close>, copied into an array.\<close>

definition findCommentBoxes :: "element \<Rightarrow> nat list list" where
  "findCommentBoxes doc = query_all commentBox_selector doc"

definition hasButtonInjected :: "element \<Rightarrow> bool" where
  "hasButtonInjected commentBox = (querySelector button_selector commentBox \<noteq> None)"

text \<open>The insertion point, as a path from the comment box.\<close>

definition findInsertionPoint :: "element \<Rightarrow> nat list" where
  "findInsertionPoint commentBox =
     (case querySelector toolbar_selector commentBox of
        Some toolbar \<Rightarrow> toolbar
      | None \<Rightarrow>
          (case querySelector form_selector commentBox of
             Some form \<Rightarrow> form
           | None \<Rightarrow> []))"

text \<open>The button of \<open>createButton\<close>, with the elements of its \<open>innerHTML\<close>.\<close>

definition createButton :: element where
  "createButton =
     Element ''button'' [''ai-reply-btn'']
       [Element ''svg'' [''ai-reply-btn__icon''] [Element ''path'' [] [], Element ''path'' [] []],
        Element ''span'' [''ai-reply-btn__text''] []]"

text \<open>
  The body of the \<open>forEach\<close> in \<open>injectButtons\<close>, for the comment box at path \<open>p\<close> of the
  live document, and the whole pass over the array found at its start.
\<close>

definition inject_button :: "nat list \<Rightarrow> element \<Rightarrow> element" where
  "inject_button p doc =
     (case element_at doc p of
        None \<Rightarrow> doc
      | Some commentBox \<Rightarrow>
          if hasButtonInjected commentBox then doc
          else appendChild (p @ findInsertionPoint commentBox) createButton doc)"

definition injectButtons :: "element \<Rightarrow> element" where
  "injectButtons doc = fold inject_button (findCommentBoxes doc) doc"

text \<open>The number of action controls inside the element at a path.\<close>

definition button_count :: "element \<Rightarrow> nat list \<Rightarrow> nat" where
  "button_count doc p =
     (case element_at doc p of
        None \<Rightarrow> 0
      | Some commentBox \<Rightarrow> length (querySelectorAll button_selector commentBox))"

section \<open>Observing runs\<close>

text \<open>
  A sequence of \<open>trackUsage\<close> calls, one per environment, each starting in the world the
  previous one left: the result and the world after every call. \<open>counts_after\<close> reads the
  stored count after every call. A call is inside the window of a record when its clock
  reading is before the record's \<open>resetDate\<close> and its read of the store succeeds.
\<close>

fun trackUsage_calls :: "env list \<Rightarrow> world \<Rightarrow> ((js_error + UsageData) \<times> world) list" where
  "trackUsage_calls [] w = []"
| "trackUsage_calls (e # es) w =
     (case trackUsage e w of (r, w') \<Rightarrow> (r, w') # trackUsage_calls es w')"


definition in_window :: "UsageData \<Rightarrow> env \<Rightarrow> bool" where
  "in_window u e = (now_resetUsageIfExpired e < resetDate u \<and> \<not> local_get_fails e)"

text \<open>
  The usage records written to the store and the calls of the external generator, read off a
  trace in the order they happened.
\<close>

fun ledger_writes :: "event list \<Rightarrow> UsageData list" where
  "ledger_writes [] = []"
| "ledger_writes (LocalSet u # evs) = u # ledger_writes evs"
| "ledger_writes (ev # evs) = ledger_writes evs"

fun generator_calls :: "event list \<Rightarrow> (string \<times> UserSettings) list" where
  "generator_calls [] = []"
| "generator_calls (ApiCall t s # evs) = (t, s) # generator_calls evs"
| "generator_calls (ev # evs) = generator_calls evs"

text \<open>
  A comment box is covered when the element at its path contains an action control. A list of
  paths is not nested when no path in it leads into the subtree of another.
\<close>

definition covered :: "element \<Rightarrow> nat list \<Rightarrow> bool" where
  "covered doc p = (case element_at doc p of None \<Rightarrow> False | Some box \<Rightarrow> hasButtonInjected box)"

definition not_nested :: "nat list list \<Rightarrow> bool" where
  "not_nested ps = (\<forall>p\<in>set ps. \<forall>q\<in>set ps. prefix p q \<longrightarrow> p = q)"

section \<open>Reference definitions from the specification\<close>

text \<open>
  The Preferences record of the specification's data model: every field present, the tone and
  the default action from their enumerations, \<open>maxLength\<close> in \<open>[100, 1000]\<close> and the limit in
  \<open>[1, 10000]\<close>.
\<close>

definition spec_Preferences :: "PartialSettings \<Rightarrow> bool" where
  "spec_Preferences p =
     (case (p_apiKey p, p_tone p, p_maxLength p, p_defaultAction p, p_rateLimit p, p_stealthMode p) of
        (Some credential, Some t, Some m, Some a, Some l, Some paced) \<Rightarrow>
          t \<in> {''professional'', ''polite'', ''friendly'', ''concise''} \<and> 100 \<le> m \<and> m \<le> 1000
          \<and> a \<in> {''insert'', ''copy''} \<and> 1 \<le> l \<and> l \<le> 10000
      | _ \<Rightarrow> False)"

text \<open>
  The remaining-time string as the specification words it: hours and minutes, or \<open>now\<close> when
  nothing remains.
\<close>

definition spec_remaining_time :: "int \<Rightarrow> string" where
  "spec_remaining_time remaining =
     (if remaining \<le> 0 then ''now''
      else string_of_int (remaining div 3600000) @ ''h ''
           @ string_of_int ((remaining mod 3600000) div 60000) @ ''m'')"

section \<open>Sample data\<close>

text \<open>Settings, environments, usage records, worlds, requests and collaborators.\<close>

definition example_settings :: UserSettings where
  "example_settings =
     \<lparr>apiKey = ''AIzaSy-0123456789'', tone = ''friendly'', maxLength = 300,
      defaultAction = ''copy'', rateLimit = 20, stealthMode = False\<rparr>"

definition empty_world :: world where
  "empty_world = \<lparr>sync_settings = None, local_usage = None, trace = []\<rparr>"

definition example_env :: env where
  "example_env =
     \<lparr>now_getUsage = 1000, now_resetUsageIfExpired = 1000, now_getTimeUntilReset = 1000,
      handler_sync_get_fails = False, local_get_fails = False, sync_get_fails = False,
      reset_set_fails = False, track_set_fails = False\<rparr>"

definition write_failing_env :: env where
  "write_failing_env = example_env\<lparr>track_set_fails := True\<rparr>"


definition example_usage :: UsageData where
  "example_usage = \<lparr>count = 0, resetDate = 61000, limit = 2\<rparr>"

definition expired_usage :: UsageData where
  "expired_usage = \<lparr>count = 3, resetDate = 500, limit = 20\<rparr>"

definition exhausted_usage :: UsageData where
  "exhausted_usage = \<lparr>count = 5, resetDate = 31000, limit = 5\<rparr>"


definition example_world :: world where
  "example_world = \<lparr>sync_settings = None, local_usage = Some example_usage, trace = []\<rparr>"

definition configured_world :: "UsageData option \<Rightarrow> world" where
  "configured_world usage =
     \<lparr>sync_settings = Some (as_partial example_settings), local_usage = usage, trace = []\<rparr>"

definition example_request :: GenerateReplyRequest where
  "example_request =
     \<lparr>postText = ''Great insights on leadership!'', authorName = None, postDate = None\<rparr>"

definition short_request :: GenerateReplyRequest where
  "short_request = \<lparr>postText = ''  hi  '', authorName = None, postDate = None\<rparr>"

definition pass_through :: "string \<Rightarrow> js_error + string" where
  "pass_through t = Inr t"

definition rate_limit_sanitizer :: "string \<Rightarrow> js_error + string" where
  "rate_limit_sanitizer t = Inl (Error ''Rate limit of the sanitizer'')"

definition replying_generator :: "string \<Rightarrow> UserSettings \<Rightarrow> js_error + string" where
  "replying_generator t s = Inr ''Thanks for sharing!''"

definition failing_generator :: "string \<Rightarrow> UserSettings \<Rightarrow> js_error + string" where
  "failing_generator t s = Inl (Error ''Rate limit exceeded for this API key'')"

text \<open>
  Pages: two separate comment boxes; a comment box holding a toolbar and, beside it, a nested
  form; a comment box whose nested form holds the editor and the toolbar; the same without a
  toolbar.
\<close>

definition sample_page :: element where
  "sample_page =
     Element ''body'' []
       [Element ''form'' [''comments-comment-box__form'']
          [Element ''div'' [''ql-editor''] [],
           Element ''div'' [''comments-comment-box__toolbar''] []],
        Element ''div'' [''comments-comment-box''] []]"

definition nested_page :: element where
  "nested_page =
     Element ''body'' []
       [Element ''div'' [''comments-comment-box'']
          [Element ''div'' [''comments-comment-box__toolbar''] [],
           Element ''form'' [''comments-comment-box__form''] []]]"

definition linkedin_page :: element where
  "linkedin_page =
     Element ''body'' []
       [Element ''div'' [''comments-comment-box'']
          [Element ''form'' [''comments-comment-box__form'']
             [Element ''div'' [''ql-editor''] [],
              Element ''div'' [''comments-comment-box__toolbar''] []]]]"

definition linkedin_page_no_toolbar :: element where
  "linkedin_page_no_toolbar =
     Element ''body'' []
       [Element ''div'' [''comments-comment-box'']
          [Element ''form'' [''comments-comment-box__form'']
             [Element ''div'' [''ql-editor''] []]]]"

section \<open>Settings validation\<close>

lemma validateSettings_iff:
  "validateSettings s = Inr () \<longleftrightarrow>
     (case p_apiKey s of None \<Rightarrow> True | Some k \<Rightarrow> length k = 0 \<or> 10 \<le> length k) \<and>
     (case p_tone s of None \<Rightarrow> True | Some t \<Rightarrow> t \<in> set validTones) \<and>
     (case p_maxLength s of None \<Rightarrow> True | Some m \<Rightarrow> 100 \<le> m \<and> m \<le> 1000) \<and>
     (case p_defaultAction s of None \<Rightarrow> True | Some a \<Rightarrow> a \<in> set validActions) \<and>
     (case p_rateLimit s of None \<Rightarrow> True | Some r \<Rightarrow> 1 \<le> r \<and> r \<le> 10000)"
  unfolding validateSettings_def check_apiKey_def check_tone_def check_maxLength_def
    check_defaultAction_def check_rateLimit_def
  by (auto split: option.splits sum.splits if_splits)

text \<open>
  C7. Settings validation accepts and rejects exactly at the documented boundaries. Starting
  from the built-in defaults, \<open>maxLength = 99\<close> and \<open>1001\<close> are rejected with the max-length
  error, \<open>100\<close> and \<open>1000\<close> are accepted, \<open>rateLimit = 0\<close> is rejected with the rate-limit
  error and \<open>1\<close> is accepted. More generally, for every settings object \<open>s\<close>: with
  \<open>maxLength\<close> 99 or 1001, or \<open>rateLimit\<close> 0, validation throws whatever the other fields
  are; with \<open>maxLength\<close> 100 or 1000, or \<open>rateLimit\<close> 1, that field passes its check, so the
  outcome is the one for the object without the field.
\<close>

theorem validateSettings_boundaries:
  "validateSettings (as_partial (DEFAULT_SETTINGS\<lparr>maxLength := 99\<rparr>))
     = Inl (Error ''Max length must be between 100 and 1000 characters'')
   \<and> validateSettings (as_partial (DEFAULT_SETTINGS\<lparr>maxLength := 100\<rparr>)) = Inr ()
   \<and> validateSettings (as_partial (DEFAULT_SETTINGS\<lparr>maxLength := 1000\<rparr>)) = Inr ()
   \<and> validateSettings (as_partial (DEFAULT_SETTINGS\<lparr>maxLength := 1001\<rparr>))
     = Inl (Error ''Max length must be between 100 and 1000 characters'')
   \<and> validateSettings (as_partial (DEFAULT_SETTINGS\<lparr>rateLimit := 0\<rparr>))
     = Inl (Error ''Rate limit must be between 1 and 10000'')
   \<and> validateSettings (as_partial (DEFAULT_SETTINGS\<lparr>rateLimit := 1\<rparr>)) = Inr ()
   \<and> isl (validateSettings (s\<lparr>p_maxLength := Some 99\<rparr>))
   \<and> isl (validateSettings (s\<lparr>p_maxLength := Some 1001\<rparr>))
   \<and> isl (validateSettings (s\<lparr>p_rateLimit := Some 0\<rparr>))
   \<and> validateSettings (s\<lparr>p_maxLength := Some 100\<rparr>) = validateSettings (s\<lparr>p_maxLength := None\<rparr>)
   \<and> validateSettings (s\<lparr>p_maxLength := Some 1000\<rparr>) = validateSettings (s\<lparr>p_maxLength := None\<rparr>)
   \<and> validateSettings (s\<lparr>p_rateLimit := Some 1\<rparr>) = validateSettings (s\<lparr>p_rateLimit := None\<rparr>)"
  unfolding validateSettings_def check_apiKey_def check_tone_def check_maxLength_def
    check_defaultAction_def check_rateLimit_def as_partial_def DEFAULT_SETTINGS_def
    validTones_def validActions_def
  by (simp split: option.splits sum.splits)

section \<open>Settings storage\<close>

lemma merge_defaults_as_partial: "merge_defaults (Some (as_partial s)) = s"
  by (simp add: merge_defaults_def as_partial_def)

lemma validateSettings_spec_Preferences:
  "validateSettings (as_partial s) = Inr () \<Longrightarrow> spec_Preferences (as_partial s)"
  by (simp add: validateSettings_iff)
     (auto simp: spec_Preferences_def as_partial_def validTones_def validActions_def)

lemma validate_example_settings: "validateSettings (as_partial example_settings) = Inr ()"
  by (simp add: validateSettings_iff)
     (simp add: as_partial_def example_settings_def validTones_def validActions_def)

text \<open>
  C6. For every settings record that passes validation, \<open>saveSettings\<close> followed by
  \<open>getSettings\<close> returns the saved record merged over the built-in defaults (which is the
  saved record itself, all of its fields being present), provided the two storage calls
  succeed. \<open>saveSettings\<close> validates before it writes: a record that fails validation makes it
  throw \<open>Failed to save settings\<close> with the world untouched, and whatever the outcome the
  stored settings are either what they were or the complete saved record, which then passed
  validation and is a Preferences record of the data model.
\<close>

theorem saveSettings_getSettings_roundtrip:
  "(validateSettings (as_partial s) = Inr () \<and> \<not> set_fails \<and> \<not> get_fails \<longrightarrow>
      fst (saveSettings set_fails s w) = Inr ()
      \<and> fst (getSettings get_fails (snd (saveSettings set_fails s w)))
          = merge_defaults (Some (as_partial s))
      \<and> merge_defaults (Some (as_partial s)) = s)
   \<and> (validateSettings (as_partial s) \<noteq> Inr () \<longrightarrow>
        saveSettings set_fails s w = (Inl (Error ''Failed to save settings''), w))
   \<and> (sync_settings (snd (saveSettings set_fails s w)) = sync_settings w
      \<or> sync_settings (snd (saveSettings set_fails s w)) = Some (as_partial s)
        \<and> validateSettings (as_partial s) = Inr () \<and> spec_Preferences (as_partial s))"
proof (cases "validateSettings (as_partial s)")
  case (Inl err)
  then show ?thesis by (simp add: saveSettings_def)
next
  case (Inr u)
  then have ok: "validateSettings (as_partial s) = Inr ()" by simp
  from ok have "spec_Preferences (as_partial s)" by (rule validateSettings_spec_Preferences)
  with ok show ?thesis
    by (simp add: saveSettings_def getSettings_def emit_def merge_defaults_as_partial)
qed

theorem saveSettings_getSettings_roundtrip_witness:
  "validateSettings (as_partial example_settings) = Inr ()
   \<and> fst (saveSettings False example_settings empty_world) = Inr ()
   \<and> fst (getSettings False (snd (saveSettings False example_settings empty_world)))
       = example_settings
   \<and> validateSettings (as_partial (example_settings\<lparr>maxLength := 99\<rparr>)) \<noteq> Inr ()
   \<and> saveSettings False (example_settings\<lparr>maxLength := 99\<rparr>) empty_world
       = (Inl (Error ''Failed to save settings''), empty_world)"
proof -
  have bad: "validateSettings (as_partial (example_settings\<lparr>maxLength := 99\<rparr>)) \<noteq> Inr ()"
    by (simp add: validateSettings_iff) (simp add: as_partial_def example_settings_def)
  show ?thesis
    using saveSettings_getSettings_roundtrip
            [of example_settings False False empty_world]
          saveSettings_getSettings_roundtrip
            [of "example_settings\<lparr>maxLength := 99\<rparr>" False False empty_world]
          validate_example_settings bad
    by simp
qed

section \<open>The usage record\<close>

text \<open>
  C9. When no usage record is stored, or the read of the store fails, \<open>getUsage\<close> returns the
  fresh record \<open>{count: 0, resetDate: now + 24h, limit: 50}\<close> and writes nothing: the only
  effect is the read itself, so the record is not created in storage, and its limit is the
  built-in default whatever rate limit the saved settings hold.
\<close>

theorem getUsage_default_not_persisted:
  "local_usage w = None \<or> get_fails \<Longrightarrow>
     getUsage now get_fails w
       = (\<lparr>count = 0, resetDate = now + 86400000, limit = 50\<rparr>, w\<lparr>trace := trace w @ [LocalGet]\<rparr>)"
  by (auto simp: getUsage_def defaultUsage_def DEFAULT_SETTINGS_def emit_def)

theorem getUsage_default_not_persisted_witness:
  "getUsage 1000 False
      \<lparr>sync_settings = Some (as_partial example_settings), local_usage = None, trace = []\<rparr>
     = (\<lparr>count = 0, resetDate = 86401000, limit = 50\<rparr>,
        \<lparr>sync_settings = Some (as_partial example_settings), local_usage = None,
         trace = [LocalGet]\<rparr>)
   \<and> getUsage 1000 True
      \<lparr>sync_settings = Some (as_partial example_settings),
       local_usage = Some \<lparr>count = 7, resetDate = 5000, limit = 20\<rparr>, trace = []\<rparr>
     = (\<lparr>count = 0, resetDate = 86401000, limit = 50\<rparr>,
        \<lparr>sync_settings = Some (as_partial example_settings),
         local_usage = Some \<lparr>count = 7, resetDate = 5000, limit = 20\<rparr>, trace = [LocalGet]\<rparr>)
   \<and> rateLimit (merge_defaults (Some (as_partial example_settings))) = 20"
  using getUsage_default_not_persisted
          [of "\<lparr>sync_settings = Some (as_partial example_settings), local_usage = None, trace = []\<rparr>"
              False 1000]
        getUsage_default_not_persisted
          [of "\<lparr>sync_settings = Some (as_partial example_settings),
                local_usage = Some \<lparr>count = 7, resetDate = 5000, limit = 20\<rparr>, trace = []\<rparr>"
              True 1000]
  by (simp add: merge_defaults_as_partial example_settings_def)

section \<open>The usage window\<close>


lemma resetUsageIfExpired_expired:
  assumes "local_usage w = Some u" and "\<not> local_get_fails e"
    and "resetDate u \<le> now_resetUsageIfExpired e" and "\<not> reset_set_fails e"
  shows "resetUsageIfExpired e w =
     (Inr \<lparr>count = 0, resetDate = now_resetUsageIfExpired e + 86400000,
           limit = rateLimit (fst (getSettings (sync_get_fails e) w))\<rparr>,
      w\<lparr>local_usage := Some \<lparr>count = 0, resetDate = now_resetUsageIfExpired e + 86400000,
                              limit = rateLimit (fst (getSettings (sync_get_fails e) w))\<rparr>,
        trace := trace w @ [LocalGet, SyncGet,
                   LocalSet \<lparr>count = 0, resetDate = now_resetUsageIfExpired e + 86400000,
                             limit = rateLimit (fst (getSettings (sync_get_fails e) w))\<rparr>]\<rparr>)"
  using assms
  by (simp add: resetUsageIfExpired_def getUsage_def getSettings_def saveUsage_def emit_def Let_def)


text \<open>
  C2. For every stored usage record whose window has ended (\<open>now \<ge> resetDate\<close>), when the
  read of the record and the write of the new one succeed: \<open>resetUsageIfExpired\<close> returns and
  stores a record with count 0 whose \<open>resetDate\<close> is exactly 24 hours after the clock
  reading of the call, with the limit of the current settings; and \<open>trackUsage\<close>, when that
  limit is positive and its own write succeeds, returns and stores the same record with
  count 1.
\<close>

theorem window_rollover:
  assumes "local_usage w = Some u" and "resetDate u \<le> now_resetUsageIfExpired e"
    and "\<not> local_get_fails e" and "\<not> reset_set_fails e"
  shows "fst (resetUsageIfExpired e w)
           = Inr \<lparr>count = 0, resetDate = now_resetUsageIfExpired e + 24 * 60 * 60 * 1000,
                  limit = rateLimit (fst (getSettings (sync_get_fails e) w))\<rparr>
       \<and> local_usage (snd (resetUsageIfExpired e w))
           = Some \<lparr>count = 0, resetDate = now_resetUsageIfExpired e + 24 * 60 * 60 * 1000,
                   limit = rateLimit (fst (getSettings (sync_get_fails e) w))\<rparr>
       \<and> (0 < rateLimit (fst (getSettings (sync_get_fails e) w)) \<and> \<not> track_set_fails e \<longrightarrow>
            fst (trackUsage e w)
              = Inr \<lparr>count = 1, resetDate = now_resetUsageIfExpired e + 24 * 60 * 60 * 1000,
                     limit = rateLimit (fst (getSettings (sync_get_fails e) w))\<rparr>
            \<and> local_usage (snd (trackUsage e w))
              = Some \<lparr>count = 1, resetDate = now_resetUsageIfExpired e + 24 * 60 * 60 * 1000,
                      limit = rateLimit (fst (getSettings (sync_get_fails e) w))\<rparr>)"
  using assms
  by (simp add: trackUsage_def resetUsageIfExpired_expired saveUsage_def emit_def Let_def)

theorem window_rollover_witness:
  "resetDate \<lparr>count = 7, resetDate = 500, limit = 20\<rparr> \<le> now_resetUsageIfExpired example_env
   \<and> fst (resetUsageIfExpired example_env
            (empty_world\<lparr>local_usage := Some \<lparr>count = 7, resetDate = 500, limit = 20\<rparr>\<rparr>))
       = Inr \<lparr>count = 0, resetDate = 86401000, limit = 50\<rparr>
   \<and> local_usage (snd (resetUsageIfExpired example_env
            (empty_world\<lparr>local_usage := Some \<lparr>count = 7, resetDate = 500, limit = 20\<rparr>\<rparr>)))
       = Some \<lparr>count = 0, resetDate = 86401000, limit = 50\<rparr>
   \<and> fst (trackUsage example_env
            (empty_world\<lparr>local_usage := Some \<lparr>count = 7, resetDate = 500, limit = 20\<rparr>\<rparr>))
       = Inr \<lparr>count = 1, resetDate = 86401000, limit = 50\<rparr>
   \<and> local_usage (snd (trackUsage example_env
            (empty_world\<lparr>local_usage := Some \<lparr>count = 7, resetDate = 500, limit = 20\<rparr>\<rparr>)))
       = Some \<lparr>count = 1, resetDate = 86401000, limit = 50\<rparr>"
  using window_rollover
          [of "empty_world\<lparr>local_usage := Some \<lparr>count = 7, resetDate = 500, limit = 20\<rparr>\<rparr>"
              "\<lparr>count = 7, resetDate = 500, limit = 20\<rparr>" example_env]
  by (simp add: empty_world_def example_env_def getSettings_def merge_defaults_def
        DEFAULT_SETTINGS_def)

section \<open>Quota within one window\<close>





lemma trackUsage_calls_length [simp]: "length (trackUsage_calls es w) = length es"
  by (induction es arbitrary: w) (auto split: prod.splits)




lemma example_in_window: "in_window example_usage example_env"
  by (simp add: in_window_def example_usage_def example_env_def)





section \<open>The gateway\<close>

lemma ledger_writes_append [simp]: "ledger_writes (xs @ ys) = ledger_writes xs @ ledger_writes ys"
  by (induction xs rule: ledger_writes.induct) simp_all

lemma generator_calls_append [simp]:
  "generator_calls (xs @ ys) = generator_calls xs @ generator_calls ys"
  by (induction xs rule: generator_calls.induct) simp_all

lemma trim_Nil [simp]: "trim [] = []"
  by (simp add: trim_def)

lemma str_includes_sublist: "str_includes s sub \<longleftrightarrow> sublist sub s"
  by (induction s) (simp_all add: sublist_Cons_right)

lemma str_includes_prefix: "prefix sub s \<Longrightarrow> str_includes s sub"
  by (cases s) simp_all

lemma rate_limit_message_includes: "str_includes (rate_limit_message now u) ''Rate limit''"
  by (rule str_includes_prefix) (simp add: rate_limit_message_def)

lemma short_text_rejected:
  "length (trim t) < 5 \<or> 10000 < length (trim t) \<Longrightarrow> isl (validatePostText t)"
  by (auto simp: validatePostText_def Let_def)

lemma handle_input_error:
  "validatePostText (postText request) = Inl err \<Longrightarrow>
     handleGenerateReply san api e request w = (failure_response err, w)"
  by (simp add: handleGenerateReply_def)

lemma handle_sanitize_error:
  "validatePostText (postText request) = Inr () \<Longrightarrow> san (postText request) = Inl err \<Longrightarrow>
     handleGenerateReply san api e request w = (failure_response err, w)"
  by (simp add: handleGenerateReply_def)

lemma handle_no_credential:
  "validatePostText (postText request) = Inr () \<Longrightarrow> san (postText request) = Inr text \<Longrightarrow>
   trim (apiKey (fst (getSettings (handler_sync_get_fails e) w))) = [] \<Longrightarrow>
     handleGenerateReply san api e request w
       = (failure_response (Error ''API key not configured''), emit SyncGet w)"
  by (auto simp: handleGenerateReply_def getSettings_def)

lemma handle_reaches_quota:
  assumes "validatePostText (postText request) = Inr ()"
    and "san (postText request) = Inr text"
    and "trim (apiKey (fst (getSettings (handler_sync_get_fails e) w))) \<noteq> []"
  shows "handleGenerateReply san api e request w =
     (case trackUsage e (emit SyncGet w) of
        (Inl err, w2) \<Rightarrow> (failure_response err, w2)
      | (Inr usage, w2) \<Rightarrow>
          (case api text (fst (getSettings (handler_sync_get_fails e) w)) of
             Inl err \<Rightarrow>
               (failure_response err,
                emit (ApiCall text (fst (getSettings (handler_sync_get_fails e) w))) w2)
           | Inr reply_text \<Rightarrow>
               (\<lparr>success = True, reply = Some reply_text, error = None,
                 usageCount = Some (count usage), rateLimitReached = Some False\<rparr>,
                emit (ApiCall text (fst (getSettings (handler_sync_get_fails e) w))) w2)))"
proof -
  from assms(3) have "apiKey (fst (getSettings (handler_sync_get_fails e) w)) \<noteq> []"
    by auto
  with assms show ?thesis
    by (auto simp: handleGenerateReply_def getSettings_def split: prod.splits sum.splits)
qed

lemma failure_response_fields [simp]:
  "success (failure_response err) = False"
  "reply (failure_response err) = None"
  "usageCount (failure_response err) = None"
  by (simp_all add: failure_response_def)

lemma trackUsage_success:
  assumes "trackUsage e w = (Inr usage, w2)"
  shows "\<exists>rolled w1. resetUsageIfExpired e w = (Inr rolled, w1) \<and> count rolled < limit rolled
           \<and> usage = rolled\<lparr>count := count rolled + 1\<rparr>
           \<and> w2 = w1\<lparr>local_usage := Some usage, trace := trace w1 @ [LocalSet usage]\<rparr>"
  using assms
  by (auto simp: trackUsage_def saveUsage_def emit_def Let_def
           split: prod.splits sum.splits if_splits)

lemma trackUsage_failure:
  assumes "trackUsage e w = (Inl err, w2)"
  shows "generator_calls (trace w2) = generator_calls (trace w)"
  using assms
  by (auto simp: trackUsage_def resetUsageIfExpired_def getUsage_def getSettings_def
                 saveUsage_def emit_def Let_def
           split: prod.splits sum.splits if_splits option.splits)

lemma resetUsageIfExpired_success:
  assumes "resetUsageIfExpired e w = (Inr rolled, w1)"
  shows "generator_calls (trace w1) = generator_calls (trace w)
       \<and> ledger_writes (trace w1) = ledger_writes (trace w) @
            (if resetDate (fst (getUsage (now_getUsage e) (local_get_fails e) w))
                  \<le> now_resetUsageIfExpired e
             then [rolled] else [])"
  using assms
  by (auto simp: resetUsageIfExpired_def getUsage_def getSettings_def
                 saveUsage_def emit_def Let_def
           split: prod.splits sum.splits if_splits option.splits)

lemma emit_fields [simp]:
  "trace (emit ev w) = trace w @ [ev]"
  "local_usage (emit ev w) = local_usage w"
  "sync_settings (emit ev w) = sync_settings w"
  by (simp_all add: emit_def)

lemma getUsage_emit [simp]: "fst (getUsage now f (emit ev w)) = fst (getUsage now f w)"
  by (simp add: getUsage_def emit_def split: option.splits)

lemma example_request_valid: "validatePostText (postText example_request) = Inr ()"
  by code_simp

lemma example_credential:
  "trim (apiKey (fst (getSettings (handler_sync_get_fails example_env) (configured_world u)))) \<noteq> []"
  by (simp add: getSettings_def example_env_def configured_world_def merge_defaults_as_partial)
     (simp add: example_settings_def trim_def is_space_def)

lemma example_handler_settings:
  "fst (getSettings (handler_sync_get_fails example_env) (configured_world u)) = example_settings"
  by (simp add: getSettings_def example_env_def configured_world_def merge_defaults_as_partial)

lemma expired_trackUsage:
  "trackUsage example_env (emit SyncGet (configured_world (Some expired_usage)))
     = (Inr \<lparr>count = 1, resetDate = 86401000, limit = 20\<rparr>,
        \<lparr>sync_settings = Some (as_partial example_settings),
         local_usage = Some \<lparr>count = 1, resetDate = 86401000, limit = 20\<rparr>,
         trace = [SyncGet, LocalGet, SyncGet,
                  LocalSet \<lparr>count = 0, resetDate = 86401000, limit = 20\<rparr>,
                  LocalSet \<lparr>count = 1, resetDate = 86401000, limit = 20\<rparr>]\<rparr>)"
  by (simp add: trackUsage_def resetUsageIfExpired_def getUsage_def getSettings_def saveUsage_def
        emit_def configured_world_def expired_usage_def example_env_def example_settings_def
        merge_defaults_def as_partial_def Let_def)

lemma getTimeUntilReset_format:
  "getTimeUntilReset now rd =
     (if rd - now \<le> 0 then ''now''
      else if 3600000 \<le> rd - now
        then string_of_int ((rd - now) div 3600000) @ ''h ''
             @ string_of_int (((rd - now) mod 3600000) div 60000) @ ''m''
      else if 60000 \<le> rd - now then string_of_int ((rd - now) div 60000) @ ''m''
      else string_of_int ((rd - now) div 1000) @ ''s'')"
proof -
  have h: "0 < d div 3600000 \<longleftrightarrow> 3600000 \<le> d" for d :: int
    by (simp add: pos_imp_zdiv_pos_iff)
  have m: "0 < d div 60000 \<longleftrightarrow> 60000 \<le> d" for d :: int
    by (simp add: pos_imp_zdiv_pos_iff)
  show ?thesis
    by (simp add: getTimeUntilReset_def Let_def h m)
qed

lemma unknown_error_not_rate_limit: "\<not> str_includes ''Unknown error occurred'' ''Rate limit''"
  by code_simp

lemma failure_response_flag:
  "\<exists>m. error (failure_response err) = Some m
       \<and> rateLimitReached (failure_response err) = Some (str_includes m ''Rate limit'')"
  by (cases err) (simp_all add: failure_response_def unknown_error_not_rate_limit)

lemma handle_failure_shape:
  "success (fst (handleGenerateReply san api e request w))
   \<or> (\<exists>err. fst (handleGenerateReply san api e request w) = failure_response err)"
  by (auto simp: handleGenerateReply_def split: sum.splits prod.splits)

lemma exhausted_reset:
  "fst (resetUsageIfExpired example_env (emit SyncGet (configured_world (Some exhausted_usage))))
     = Inr exhausted_usage"
  by (simp add: resetUsageIfExpired_def getUsage_def configured_world_def exhausted_usage_def
        example_env_def Let_def)

lemma getTimeUntilReset_30s: "getTimeUntilReset 1000 31000 = ''30s''"
  by code_simp

lemma string_of_int_5: "string_of_int 5 = ''5''"
  by code_simp

lemma short_request_short: "length (trim (postText short_request)) < 5"
  by code_simp

lemma default_credential_blank:
  "trim (apiKey (fst (getSettings (handler_sync_get_fails example_env) example_world))) = []"
  by (simp add: getSettings_def example_env_def example_world_def merge_defaults_def
        DEFAULT_SETTINGS_def)

lemma fresh_trackUsage:
  "fst (trackUsage example_env (emit SyncGet (configured_world (Some example_usage))))
     = Inr \<lparr>count = 1, resetDate = 61000, limit = 2\<rparr>"
  by (simp add: trackUsage_def resetUsageIfExpired_def getUsage_def saveUsage_def
        configured_world_def example_usage_def example_env_def Let_def)

lemma write_failing_trackUsage:
  "fst (trackUsage write_failing_env (emit SyncGet (configured_world (Some example_usage))))
     = Inl (Error ''Failed to save usage data'')"
  by (simp add: trackUsage_def resetUsageIfExpired_def getUsage_def saveUsage_def
        configured_world_def example_usage_def example_env_def write_failing_env_def Let_def)

lemma write_failing_credential:
  "trim (apiKey (fst (getSettings (handler_sync_get_fails write_failing_env) (configured_world u)))) \<noteq> []"
  using example_credential[of u] by (simp add: write_failing_env_def)

lemma provider_message_includes: "str_includes ''Rate limit exceeded for this API key'' ''Rate limit''"
  by code_simp

lemma persistence_message_excludes: "\<not> str_includes ''Failed to save usage data'' ''Rate limit''"
  by code_simp

text \<open>
  C3. A request whose source text, once trimmed, is empty, shorter than 5 characters or longer
  than 10,000 characters, and any request arriving when no API credential is configured, gets
  a failure response, and the usage ledger is neither read nor written: the stored usage
  record is unchanged and the only storage call that can have been made is the read of the
  settings. For the input errors the world is left exactly as it was.
\<close>

theorem rejected_before_ledger:
  assumes "length (trim (postText request)) < 5 \<or> 10000 < length (trim (postText request))
     \<or> trim (apiKey (fst (getSettings (handler_sync_get_fails e) w))) = []"
  shows "\<not> success (fst (handleGenerateReply san api e request w))
     \<and> local_usage (snd (handleGenerateReply san api e request w)) = local_usage w
     \<and> (trace (snd (handleGenerateReply san api e request w)) = trace w
        \<or> trace (snd (handleGenerateReply san api e request w)) = trace w @ [SyncGet])
     \<and> (length (trim (postText request)) < 5 \<or> 10000 < length (trim (postText request)) \<longrightarrow>
          snd (handleGenerateReply san api e request w) = w)"
proof (cases "validatePostText (postText request)")
  case (Inl err)
  then show ?thesis by (simp add: handle_input_error)
next
  case (Inr u)
  then have ok: "validatePostText (postText request) = Inr ()" by simp
  with short_text_rejected[of "postText request"]
  have long: "\<not> (length (trim (postText request)) < 5 \<or> 10000 < length (trim (postText request)))"
    by auto
  with assms have nocred: "trim (apiKey (fst (getSettings (handler_sync_get_fails e) w))) = []"
    by blast
  show ?thesis
  proof (cases "san (postText request)")
    case (Inl err)
    with ok long show ?thesis by (simp add: handle_sanitize_error)
  next
    case (Inr clean)
    from handle_no_credential[where san = san and api = api, OF ok Inr nocred] long show ?thesis
      by (simp add: emit_def)
  qed
qed

theorem rejected_before_ledger_witness:
  "length (trim (postText short_request)) < 5
   \<and> \<not> success (fst (handleGenerateReply pass_through replying_generator example_env
                      short_request (configured_world (Some example_usage))))
   \<and> snd (handleGenerateReply pass_through replying_generator example_env
            short_request (configured_world (Some example_usage)))
       = configured_world (Some example_usage)
   \<and> trim (apiKey (fst (getSettings (handler_sync_get_fails example_env) example_world))) = []
   \<and> \<not> success (fst (handleGenerateReply pass_through replying_generator example_env
                      example_request example_world))
   \<and> local_usage (snd (handleGenerateReply pass_through replying_generator example_env
                          example_request example_world)) = Some example_usage"
  using rejected_before_ledger
          [of short_request example_env "configured_world (Some example_usage)"
              pass_through replying_generator]
        rejected_before_ledger
          [of example_request example_env example_world pass_through replying_generator]
        short_request_short default_credential_blank
  by (simp add: example_world_def)

text \<open>
  C4, amended. Take a request that passes the input and credential gates, so that the quota
  check runs. If the quota check succeeds with a record \<open>usage\<close>, the request consumes
  exactly one usage unit: the generator is called once, afterwards the store holds \<open>usage\<close>,
  whose count is one above the count of the record after the lazy window roll, whether or not
  the generator fails, and a successful response carries that count. The ledger is written
  once when the window is current; when the stored window had expired the write of the
  rolled-over record comes first, so it is written twice. If the quota check throws, the
  response is the failure for that error and the generator is not called.
\<close>

theorem one_consumption_per_request:
  assumes "validatePostText (postText request) = Inr ()"
    and "san (postText request) = Inr text"
    and "trim (apiKey (fst (getSettings (handler_sync_get_fails e) w))) \<noteq> []"
    and "trackUsage e (emit SyncGet w) = (r, w2)"
  shows "(\<forall>usage. r = Inr usage \<longrightarrow>
            snd (handleGenerateReply san api e request w)
              = emit (ApiCall text (fst (getSettings (handler_sync_get_fails e) w))) w2
          \<and> local_usage (snd (handleGenerateReply san api e request w)) = Some usage
          \<and> generator_calls (trace (snd (handleGenerateReply san api e request w)))
              = generator_calls (trace w) @ [(text, fst (getSettings (handler_sync_get_fails e) w))]
          \<and> (\<exists>rolled. fst (resetUsageIfExpired e (emit SyncGet w)) = Inr rolled
                \<and> usage = rolled\<lparr>count := count rolled + 1\<rparr>
                \<and> ledger_writes (trace (snd (handleGenerateReply san api e request w)))
                    = ledger_writes (trace w) @
                       (if resetDate (fst (getUsage (now_getUsage e) (local_get_fails e) w))
                             \<le> now_resetUsageIfExpired e
                        then [rolled, usage] else [usage]))
          \<and> (case api text (fst (getSettings (handler_sync_get_fails e) w)) of
                Inr reply_text \<Rightarrow>
                  fst (handleGenerateReply san api e request w)
                    = \<lparr>success = True, reply = Some reply_text, error = None,
                       usageCount = Some (count usage), rateLimitReached = Some False\<rparr>
              | Inl err \<Rightarrow>
                  fst (handleGenerateReply san api e request w) = failure_response err))
       \<and> (\<forall>err. r = Inl err \<longrightarrow>
            handleGenerateReply san api e request w = (failure_response err, w2)
          \<and> generator_calls (trace (snd (handleGenerateReply san api e request w)))
              = generator_calls (trace w))"
proof (intro conjI allI impI)
  fix err assume r: "r = Inl err"
  with assms(4) have tu: "trackUsage e (emit SyncGet w) = (Inl err, w2)" by simp
  from handle_reaches_quota[where san = san and api = api, OF assms(1-3)] tu
  show h: "handleGenerateReply san api e request w = (failure_response err, w2)" by simp
  from trackUsage_failure[OF tu] h
  show "generator_calls (trace (snd (handleGenerateReply san api e request w)))
              = generator_calls (trace w)"
    by (simp add: emit_def)
next
  fix usage assume r: "r = Inr usage"
  let ?settings = "fst (getSettings (handler_sync_get_fails e) w)"
  let ?H = "handleGenerateReply san api e request w"
  from r assms(4) have tu: "trackUsage e (emit SyncGet w) = (Inr usage, w2)" by simp
  note H = handle_reaches_quota[where san = san and api = api, OF assms(1-3)]
  from H tu show w': "snd ?H = emit (ApiCall text ?settings) w2"
    by (simp split: sum.splits)
  from trackUsage_success[OF tu] obtain rolled w1 where
    roll: "resetUsageIfExpired e (emit SyncGet w) = (Inr rolled, w1)"
    and usage: "usage = rolled\<lparr>count := count rolled + 1\<rparr>"
    and w2: "w2 = w1\<lparr>local_usage := Some usage, trace := trace w1 @ [LocalSet usage]\<rparr>"
    by blast
  from w' w2 show "local_usage (snd ?H) = Some usage" by (simp add: emit_def)
  from resetUsageIfExpired_success[OF roll]
  have g1: "generator_calls (trace w1) = generator_calls (trace w)"
    and l1: "ledger_writes (trace w1) = ledger_writes (trace w) @
            (if resetDate (fst (getUsage (now_getUsage e) (local_get_fails e) w))
                  \<le> now_resetUsageIfExpired e
             then [rolled] else [])"
    by simp_all
  from w' w2 g1 show "generator_calls (trace (snd ?H)) = generator_calls (trace w) @ [(text, ?settings)]"
    by (simp add: emit_def)
  from w' w2 l1 have "ledger_writes (trace (snd ?H)) = ledger_writes (trace w) @
                       (if resetDate (fst (getUsage (now_getUsage e) (local_get_fails e) w))
                             \<le> now_resetUsageIfExpired e
                        then [rolled, usage] else [usage])"
    by (simp add: emit_def)
  with roll usage show "\<exists>rolled. fst (resetUsageIfExpired e (emit SyncGet w)) = Inr rolled
                \<and> usage = rolled\<lparr>count := count rolled + 1\<rparr>
                \<and> ledger_writes (trace (snd ?H))
                    = ledger_writes (trace w) @
                       (if resetDate (fst (getUsage (now_getUsage e) (local_get_fails e) w))
                             \<le> now_resetUsageIfExpired e
                        then [rolled, usage] else [usage])"
    by auto
  from H tu show "case api text ?settings of
                Inr reply_text \<Rightarrow>
                  fst ?H = \<lparr>success = True, reply = Some reply_text, error = None,
                       usageCount = Some (count usage), rateLimitReached = Some False\<rparr>
              | Inl err \<Rightarrow> fst ?H = failure_response err"
    by (simp split: sum.splits)
qed

theorem one_consumption_per_request_witness:
  "local_usage (snd (handleGenerateReply pass_through failing_generator example_env
                       example_request (configured_world (Some expired_usage))))
     = Some \<lparr>count = 1, resetDate = 86401000, limit = 20\<rparr>
   \<and> generator_calls (trace (snd (handleGenerateReply pass_through failing_generator example_env
                       example_request (configured_world (Some expired_usage)))))
     = [(''Great insights on leadership!'', example_settings)]
   \<and> fst (handleGenerateReply pass_through failing_generator example_env
                       example_request (configured_world (Some expired_usage)))
     = \<lparr>success = False, reply = None, error = Some ''Rate limit exceeded for this API key'',
        usageCount = None, rateLimitReached = Some True\<rparr>"
proof -
  have san: "pass_through (postText example_request) = Inr ''Great insights on leadership!''"
    by (simp add: pass_through_def example_request_def)
  note inst = one_consumption_per_request
      [where san = pass_through and api = failing_generator,
       OF example_request_valid san example_credential expired_trackUsage]
  then show ?thesis
    by (simp add: example_handler_settings failing_generator_def failure_response_def)
qed

theorem one_mutation_counterexample:
  "success (fst (handleGenerateReply pass_through replying_generator example_env
                   example_request (configured_world (Some expired_usage))))
   \<and> usageCount (fst (handleGenerateReply pass_through replying_generator example_env
                   example_request (configured_world (Some expired_usage)))) = Some 1
   \<and> ledger_writes (trace (snd (handleGenerateReply pass_through replying_generator example_env
                   example_request (configured_world (Some expired_usage)))))
       = [\<lparr>count = 0, resetDate = 86401000, limit = 20\<rparr>,
          \<lparr>count = 1, resetDate = 86401000, limit = 20\<rparr>]
   \<and> length (ledger_writes (trace (snd (handleGenerateReply pass_through replying_generator
                   example_env example_request (configured_world (Some expired_usage)))))) \<noteq> 1
   \<and> local_usage (configured_world (Some expired_usage))
       = Some \<lparr>count = 3, resetDate = 500, limit = 20\<rparr>
   \<and> local_usage (snd (handleGenerateReply pass_through replying_generator example_env
                   example_request (configured_world (Some expired_usage))))
       = Some \<lparr>count = 1, resetDate = 86401000, limit = 20\<rparr>"
proof -
  have san: "pass_through (postText example_request) = Inr ''Great insights on leadership!''"
    by (simp add: pass_through_def example_request_def)
  have "handleGenerateReply pass_through replying_generator example_env
          example_request (configured_world (Some expired_usage))
        = (\<lparr>success = True, reply = Some ''Thanks for sharing!'', error = None,
            usageCount = Some 1, rateLimitReached = Some False\<rparr>,
           emit (ApiCall ''Great insights on leadership!'' example_settings)
             \<lparr>sync_settings = Some (as_partial example_settings),
              local_usage = Some \<lparr>count = 1, resetDate = 86401000, limit = 20\<rparr>,
              trace = [SyncGet, LocalGet, SyncGet,
                  LocalSet \<lparr>count = 0, resetDate = 86401000, limit = 20\<rparr>,
                  LocalSet \<lparr>count = 1, resetDate = 86401000, limit = 20\<rparr>]\<rparr>)"
    by (simp add: handle_reaches_quota
          [where san = pass_through and api = replying_generator,
           OF example_request_valid san example_credential]
          expired_trackUsage example_handler_settings replying_generator_def)
  then show ?thesis
    by (simp add: configured_world_def expired_usage_def)
qed

text \<open>
  C5, amended. When the quota check finds the count at or above the limit, the response has
  \<open>success = false\<close> and \<open>rateLimitReached = true\<close>, and its error text carries the remaining
  time formatted by \<open>getTimeUntilReset\<close>: \<open>now\<close> when nothing remains, hours and minutes from
  one hour up, minutes alone from one minute up to an hour, and seconds below one minute.
\<close>

theorem denial_response:
  assumes "validatePostText (postText request) = Inr ()"
    and "san (postText request) = Inr text"
    and "trim (apiKey (fst (getSettings (handler_sync_get_fails e) w))) \<noteq> []"
    and "fst (resetUsageIfExpired e (emit SyncGet w)) = Inr usage"
    and "limit usage \<le> count usage"
  shows "fst (handleGenerateReply san api e request w)
           = \<lparr>success = False, reply = None,
              error = Some (''Rate limit reached. Resets in ''
                        @ getTimeUntilReset (now_getTimeUntilReset e) (resetDate usage)
                        @ ''. Current usage: '' @ string_of_int (count usage)
                        @ ''/'' @ string_of_int (limit usage)),
              usageCount = None, rateLimitReached = Some True\<rparr>
       \<and> getTimeUntilReset (now_getTimeUntilReset e) (resetDate usage)
           = (if resetDate usage - now_getTimeUntilReset e \<le> 0 then ''now''
              else if 3600000 \<le> resetDate usage - now_getTimeUntilReset e
                then string_of_int ((resetDate usage - now_getTimeUntilReset e) div 3600000) @ ''h ''
                     @ string_of_int (((resetDate usage - now_getTimeUntilReset e) mod 3600000) div 60000)
                     @ ''m''
              else if 60000 \<le> resetDate usage - now_getTimeUntilReset e
                then string_of_int ((resetDate usage - now_getTimeUntilReset e) div 60000) @ ''m''
              else string_of_int ((resetDate usage - now_getTimeUntilReset e) div 1000) @ ''s'')"
proof
  obtain r0 w1 where ru: "resetUsageIfExpired e (emit SyncGet w) = (r0, w1)"
    by (cases "resetUsageIfExpired e (emit SyncGet w)")
  with assms(4) have r0: "r0 = Inr usage" by simp
  from ru r0 assms(5)
  have tu: "trackUsage e (emit SyncGet w)
              = (Inl (Error (rate_limit_message (now_getTimeUntilReset e) usage)), w1)"
    by (simp add: trackUsage_def)
  from handle_reaches_quota[where san = san and api = api, OF assms(1-3)] tu
  have "fst (handleGenerateReply san api e request w)
          = failure_response (Error (rate_limit_message (now_getTimeUntilReset e) usage))"
    by simp
  then show "fst (handleGenerateReply san api e request w)
           = \<lparr>success = False, reply = None,
              error = Some (''Rate limit reached. Resets in ''
                        @ getTimeUntilReset (now_getTimeUntilReset e) (resetDate usage)
                        @ ''. Current usage: '' @ string_of_int (count usage)
                        @ ''/'' @ string_of_int (limit usage)),
              usageCount = None, rateLimitReached = Some True\<rparr>"
    using rate_limit_message_includes[of "now_getTimeUntilReset e" usage]
    by (simp add: failure_response_def) (simp add: rate_limit_message_def)
qed (rule getTimeUntilReset_format)

theorem denial_response_witness:
  "limit exhausted_usage \<le> count exhausted_usage
   \<and> fst (handleGenerateReply pass_through replying_generator example_env example_request
            (configured_world (Some exhausted_usage)))
       = \<lparr>success = False, reply = None,
          error = Some ''Rate limit reached. Resets in 30s. Current usage: 5/5'',
          usageCount = None, rateLimitReached = Some True\<rparr>"
proof -
  have san: "pass_through (postText example_request) = Inr ''Great insights on leadership!''"
    by (simp add: pass_through_def example_request_def)
  have full: "limit exhausted_usage \<le> count exhausted_usage"
    by (simp add: exhausted_usage_def)
  from denial_response
      [where san = pass_through and api = replying_generator,
       OF example_request_valid san example_credential exhausted_reset full]
  have "fst (handleGenerateReply pass_through replying_generator example_env example_request
            (configured_world (Some exhausted_usage)))
       = \<lparr>success = False, reply = None,
              error = Some (''Rate limit reached. Resets in ''
                        @ getTimeUntilReset (now_getTimeUntilReset example_env) (resetDate exhausted_usage)
                        @ ''. Current usage: '' @ string_of_int (count exhausted_usage)
                        @ ''/'' @ string_of_int (limit exhausted_usage)),
              usageCount = None, rateLimitReached = Some True\<rparr>"
    by blast
  with full show ?thesis
    by (simp add: example_env_def exhausted_usage_def getTimeUntilReset_30s string_of_int_5)
qed

theorem remaining_time_format_counterexample:
  "fst (handleGenerateReply pass_through replying_generator example_env example_request
          (configured_world (Some exhausted_usage)))
     = \<lparr>success = False, reply = None,
        error = Some ''Rate limit reached. Resets in 30s. Current usage: 5/5'',
        usageCount = None, rateLimitReached = Some True\<rparr>
   \<and> resetDate exhausted_usage - now_getTimeUntilReset example_env = 30000
   \<and> getTimeUntilReset (now_getTimeUntilReset example_env) (resetDate exhausted_usage) = ''30s''
   \<and> spec_remaining_time 30000 = ''0h 0m''
   \<and> getTimeUntilReset (now_getTimeUntilReset example_env) (resetDate exhausted_usage)
       \<noteq> spec_remaining_time 30000"
  by code_simp

text \<open>
  C10. The gateway decides \<open>rateLimitReached\<close> from the error message alone. Whatever is
  thrown inside the handler, by \<open>validatePostText\<close>, by the sanitizer, by the credential gate,
  by the quota check (the denial or a failed write) or by the generator, the response is the
  failure built from that thrown value: its error text is the thrown message and its flag is
  whether that message contains \<open>Rate limit\<close>; a thrown value that is not an \<open>Error\<close> is
  reported as \<open>Unknown error occurred\<close> and not flagged. So in every failure response the
  flag equals whether the reported text contains \<open>Rate limit\<close>.
\<close>

theorem rate_limit_flag_by_message:
  "failure_response (Error m)
     = \<lparr>success = False, reply = None, error = Some m, usageCount = None,
        rateLimitReached = Some (str_includes m ''Rate limit'')\<rparr>
   \<and> failure_response NonError
     = \<lparr>success = False, reply = None, error = Some ''Unknown error occurred'',
        usageCount = None, rateLimitReached = Some False\<rparr>
   \<and> (\<not> success (fst (handleGenerateReply san api e request w)) \<longrightarrow>
      (\<exists>m. error (fst (handleGenerateReply san api e request w)) = Some m
          \<and> rateLimitReached (fst (handleGenerateReply san api e request w))
              = Some (str_includes m ''Rate limit'')))
   \<and> (validatePostText (postText request) = Inl err \<longrightarrow>
        fst (handleGenerateReply san api e request w) = failure_response err)
   \<and> (validatePostText (postText request) = Inr () \<and> san (postText request) = Inl err \<longrightarrow>
        fst (handleGenerateReply san api e request w) = failure_response err)
   \<and> (validatePostText (postText request) = Inr () \<and> san (postText request) = Inr text
       \<and> trim (apiKey (fst (getSettings (handler_sync_get_fails e) w))) = [] \<longrightarrow>
        fst (handleGenerateReply san api e request w)
          = \<lparr>success = False, reply = None, error = Some ''API key not configured'',
             usageCount = None, rateLimitReached = Some False\<rparr>)
   \<and> (validatePostText (postText request) = Inr () \<and> san (postText request) = Inr text
       \<and> trim (apiKey (fst (getSettings (handler_sync_get_fails e) w))) \<noteq> []
       \<and> fst (trackUsage e (emit SyncGet w)) = Inl err \<longrightarrow>
        fst (handleGenerateReply san api e request w) = failure_response err)
   \<and> (validatePostText (postText request) = Inr () \<and> san (postText request) = Inr text
       \<and> trim (apiKey (fst (getSettings (handler_sync_get_fails e) w))) \<noteq> []
       \<and> fst (trackUsage e (emit SyncGet w)) = Inr usage
       \<and> api text (fst (getSettings (handler_sync_get_fails e) w)) = Inl err \<longrightarrow>
        fst (handleGenerateReply san api e request w) = failure_response err)"
proof (intro conjI impI)
  show "failure_response (Error m)
     = \<lparr>success = False, reply = None, error = Some m, usageCount = None,
        rateLimitReached = Some (str_includes m ''Rate limit'')\<rparr>"
    by (simp add: failure_response_def)
  show "failure_response NonError
     = \<lparr>success = False, reply = None, error = Some ''Unknown error occurred'',
        usageCount = None, rateLimitReached = Some False\<rparr>"
    by (simp add: failure_response_def)
next
  assume "\<not> success (fst (handleGenerateReply san api e request w))"
  with handle_failure_shape[of san api e request w]
  obtain err' where "fst (handleGenerateReply san api e request w) = failure_response err'"
    by blast
  with failure_response_flag[of err']
  show "\<exists>m. error (fst (handleGenerateReply san api e request w)) = Some m
          \<and> rateLimitReached (fst (handleGenerateReply san api e request w))
              = Some (str_includes m ''Rate limit'')"
    by simp
next
  assume "validatePostText (postText request) = Inl err"
  then show "fst (handleGenerateReply san api e request w) = failure_response err"
    by (simp add: handle_input_error)
next
  assume "validatePostText (postText request) = Inr () \<and> san (postText request) = Inl err"
  then show "fst (handleGenerateReply san api e request w) = failure_response err"
    by (simp add: handle_sanitize_error)
next
  assume a: "validatePostText (postText request) = Inr () \<and> san (postText request) = Inr text
       \<and> trim (apiKey (fst (getSettings (handler_sync_get_fails e) w))) = []"
  then have g: "validatePostText (postText request) = Inr ()" "san (postText request) = Inr text"
    "trim (apiKey (fst (getSettings (handler_sync_get_fails e) w))) = []" by simp_all
  have "\<not> str_includes ''API key not configured'' ''Rate limit''" by code_simp
  with handle_no_credential[where san = san and api = api, OF g]
  show "fst (handleGenerateReply san api e request w)
          = \<lparr>success = False, reply = None, error = Some ''API key not configured'',
             usageCount = None, rateLimitReached = Some False\<rparr>"
    by (simp add: failure_response_def)
next
  assume a: "validatePostText (postText request) = Inr () \<and> san (postText request) = Inr text
       \<and> trim (apiKey (fst (getSettings (handler_sync_get_fails e) w))) \<noteq> []
       \<and> fst (trackUsage e (emit SyncGet w)) = Inl err"
  then have g: "validatePostText (postText request) = Inr ()" "san (postText request) = Inr text"
    "trim (apiKey (fst (getSettings (handler_sync_get_fails e) w))) \<noteq> []" by simp_all
  from handle_reaches_quota[where san = san and api = api, OF g] a
  show "fst (handleGenerateReply san api e request w) = failure_response err"
    by (cases "trackUsage e (emit SyncGet w)") simp
next
  assume a: "validatePostText (postText request) = Inr () \<and> san (postText request) = Inr text
       \<and> trim (apiKey (fst (getSettings (handler_sync_get_fails e) w))) \<noteq> []
       \<and> fst (trackUsage e (emit SyncGet w)) = Inr usage
       \<and> api text (fst (getSettings (handler_sync_get_fails e) w)) = Inl err"
  then have g: "validatePostText (postText request) = Inr ()" "san (postText request) = Inr text"
    "trim (apiKey (fst (getSettings (handler_sync_get_fails e) w))) \<noteq> []" by simp_all
  from handle_reaches_quota[where san = san and api = api, OF g] a
  show "fst (handleGenerateReply san api e request w) = failure_response err"
    by (cases "trackUsage e (emit SyncGet w)") simp
qed

theorem rate_limit_flag_by_message_witness:
  "fst (handleGenerateReply pass_through replying_generator example_env short_request
          (configured_world (Some example_usage)))
     = \<lparr>success = False, reply = None,
        error = Some ''Post text is too short (minimum 5 characters)'',
        usageCount = None, rateLimitReached = Some False\<rparr>
   \<and> fst (handleGenerateReply rate_limit_sanitizer replying_generator example_env example_request
            (configured_world (Some example_usage)))
       = \<lparr>success = False, reply = None, error = Some ''Rate limit of the sanitizer'',
          usageCount = None, rateLimitReached = Some True\<rparr>
   \<and> fst (handleGenerateReply pass_through failing_generator example_env example_request
            (configured_world (Some example_usage)))
       = \<lparr>success = False, reply = None, error = Some ''Rate limit exceeded for this API key'',
          usageCount = None, rateLimitReached = Some True\<rparr>
   \<and> fst (handleGenerateReply pass_through replying_generator write_failing_env example_request
            (configured_world (Some example_usage)))
       = \<lparr>success = False, reply = None, error = Some ''Failed to save usage data'',
          usageCount = None, rateLimitReached = Some False\<rparr>"
proof -
  have san: "pass_through (postText example_request) = Inr ''Great insights on leadership!''"
    by (simp add: pass_through_def example_request_def)
  have short: "validatePostText (postText short_request)
                 = Inl (Error ''Post text is too short (minimum 5 characters)'')"
    by code_simp
  have short_text: "\<not> str_includes ''Post text is too short (minimum 5 characters)'' ''Rate limit''"
    by code_simp
  have bad_san: "rate_limit_sanitizer (postText example_request)
                   = Inl (Error ''Rate limit of the sanitizer'')"
    by (simp add: rate_limit_sanitizer_def)
  have san_text: "str_includes ''Rate limit of the sanitizer'' ''Rate limit''"
    by code_simp
  have gen: "failing_generator ''Great insights on leadership!''
               (fst (getSettings (handler_sync_get_fails example_env)
                  (configured_world (Some example_usage))))
             = Inl (Error ''Rate limit exceeded for this API key'')"
    by (simp add: failing_generator_def)
  from rate_limit_flag_by_message
         [of "''Post text is too short (minimum 5 characters)''"
             pass_through replying_generator example_env short_request
             "configured_world (Some example_usage)"
             "Error ''Post text is too short (minimum 5 characters)''"]
       short
  have a: "fst (handleGenerateReply pass_through replying_generator example_env short_request
                  (configured_world (Some example_usage)))
             = \<lparr>success = False, reply = None,
                error = Some ''Post text is too short (minimum 5 characters)'',
                usageCount = None,
                rateLimitReached
                  = Some (str_includes ''Post text is too short (minimum 5 characters)'' ''Rate limit'')\<rparr>"
    by simp
  from rate_limit_flag_by_message
         [of "''Rate limit of the sanitizer''"
             rate_limit_sanitizer replying_generator example_env example_request
             "configured_world (Some example_usage)"
             "Error ''Rate limit of the sanitizer''"]
       example_request_valid bad_san
  have b: "fst (handleGenerateReply rate_limit_sanitizer replying_generator example_env
                  example_request (configured_world (Some example_usage)))
             = \<lparr>success = False, reply = None, error = Some ''Rate limit of the sanitizer'',
                usageCount = None,
                rateLimitReached = Some (str_includes ''Rate limit of the sanitizer'' ''Rate limit'')\<rparr>"
    by simp
  from rate_limit_flag_by_message
         [of "''Rate limit exceeded for this API key''"
             pass_through failing_generator example_env example_request
             "configured_world (Some example_usage)"
             "Error ''Rate limit exceeded for this API key''"
             "''Great insights on leadership!''"
             "\<lparr>count = 1, resetDate = 61000, limit = 2\<rparr>"]
       example_request_valid san example_credential fresh_trackUsage gen
  have c: "fst (handleGenerateReply pass_through failing_generator example_env example_request
            (configured_world (Some example_usage)))
       = \<lparr>success = False, reply = None, error = Some ''Rate limit exceeded for this API key'',
          usageCount = None,
          rateLimitReached = Some (str_includes ''Rate limit exceeded for this API key'' ''Rate limit'')\<rparr>"
    by simp
  from rate_limit_flag_by_message
         [of "''Failed to save usage data''"
             pass_through replying_generator write_failing_env example_request
             "configured_world (Some example_usage)"
             "Error ''Failed to save usage data''"
             "''Great insights on leadership!''"]
       example_request_valid san write_failing_credential write_failing_trackUsage
  have d: "fst (handleGenerateReply pass_through replying_generator write_failing_env example_request
            (configured_world (Some example_usage)))
       = \<lparr>success = False, reply = None, error = Some ''Failed to save usage data'',
          usageCount = None,
          rateLimitReached = Some (str_includes ''Failed to save usage data'' ''Rate limit'')\<rparr>"
    by simp
  from a b c d show ?thesis
    by (simp add: short_text san_text provider_message_includes persistence_message_excludes)
qed

section \<open>The scan pass\<close>

lemma query_children_append:
  "query_children sel i (xs @ ys) = query_children sel i xs @ query_children sel (i + length xs) ys"
  by (induction xs arbitrary: i) simp_all

lemma query_children_nonempty:
  "query_children sel i ks \<noteq> [] \<longleftrightarrow> (\<exists>k\<in>set ks. query_all sel k \<noteq> [])"
  by (induction ks arbitrary: i) auto

lemma query_children_update_same:
  "query_all sel k' = query_all sel (ks ! j) \<Longrightarrow> j < length ks \<Longrightarrow>
     query_children sel i (ks[j := k']) = query_children sel i ks"
proof (induction ks arbitrary: i j)
  case Nil
  then show ?case by simp
next
  case (Cons k ks)
  then show ?case by (cases j) simp_all
qed

lemma query_all_appendChild_none:
  "query_all sel new = [] \<Longrightarrow> query_all sel (appendChild p new e) = query_all sel e"
proof (induction p arbitrary: e)
  case Nil
  then show ?case by (cases e) (simp add: query_children_append)
next
  case (Cons i p)
  show ?case
  proof (cases e)
    case (Element t cs ks)
    with Cons show ?thesis by (simp add: query_children_update_same)
  qed
qed

lemma query_all_appendChild_mono:
  "query_all sel e \<noteq> [] \<Longrightarrow> query_all sel (appendChild p new e) \<noteq> []"
proof (induction p arbitrary: e)
  case Nil
  then show ?case by (cases e) (auto simp: query_children_append)
next
  case (Cons i p)
  show ?case
  proof (cases e)
    case (Element t cs ks)
    show ?thesis
    proof (cases "i < length ks")
      case False
      with Element Cons.prems show ?thesis by simp
    next
      case True
      show ?thesis
      proof (cases "sel t cs")
        case True
        with Element show ?thesis by simp
      next
        case False
        with Element Cons.prems have "query_children sel 0 ks \<noteq> []" by simp
        then obtain k where k: "k \<in> set ks" "query_all sel k \<noteq> []"
          by (auto simp: query_children_nonempty)
        then obtain j where j: "j < length ks" "ks ! j = k" by (auto simp: in_set_conv_nth)
        let ?ks' = "ks[i := appendChild p new (ks ! i)]"
        have "query_all sel (?ks' ! j) \<noteq> []"
        proof (cases "j = i")
          case True
          with j k Cons.IH[of "ks ! i"] \<open>i < length ks\<close> show ?thesis by simp
        next
          case False
          with j k show ?thesis by simp
        qed
        moreover have "?ks' ! j \<in> set ?ks'" using j by simp
        ultimately have "query_children sel 0 ?ks' \<noteq> []"
          unfolding query_children_nonempty by blast
        with Element \<open>i < length ks\<close> show ?thesis by simp
      qed
    qed
  qed
qed


lemma children_appendChild_nonempty:
  assumes "query_children sel 0 (children e) \<noteq> []"
  shows "query_children sel 0 (children (appendChild p new e)) \<noteq> []"
proof (cases e)
  case (Element t cs ks)
  show ?thesis
  proof (cases p)
    case Nil
    with Element assms show ?thesis by (simp add: query_children_append)
  next
    case (Cons i q)
    show ?thesis
    proof (cases "i < length ks")
      case False
      with Element Cons assms show ?thesis by simp
    next
      case True
      from Element assms obtain k where k: "k \<in> set ks" "query_all sel k \<noteq> []"
        by (auto simp: query_children_nonempty)
      then obtain j where j: "j < length ks" "ks ! j = k" by (auto simp: in_set_conv_nth)
      let ?ks' = "ks[i := appendChild q new (ks ! i)]"
      have "query_all sel (?ks' ! j) \<noteq> []"
      proof (cases "j = i")
        case True
        with j k query_all_appendChild_mono[of sel "ks ! i" q new] \<open>i < length ks\<close>
        show ?thesis by simp
      next
        case False
        with j k show ?thesis by simp
      qed
      moreover have "?ks' ! j \<in> set ?ks'" using j by simp
      ultimately have "query_children sel 0 ?ks' \<noteq> []"
        unfolding query_children_nonempty by blast
      with Element Cons True show ?thesis by simp
    qed
  qed
qed

lemma hasButtonInjected_appendChild:
  "hasButtonInjected e \<Longrightarrow> hasButtonInjected (appendChild p new e)"
  by (simp add: hasButtonInjected_def querySelector_def querySelectorAll_def
        children_appendChild_nonempty split: list.splits)

lemma query_all_createButton: "query_all button_selector createButton = [[]]"
  by (simp add: createButton_def button_selector_def)

lemma createButton_no_commentBox: "query_all commentBox_selector createButton = []"
  by (simp add: createButton_def commentBox_selector_def)

lemma query_all_appendChild_button:
  "element_at e p \<noteq> None \<Longrightarrow> query_all button_selector (appendChild p createButton e) \<noteq> []"
proof (induction p arbitrary: e)
  case Nil
  show ?case
    by (cases e) (simp add: query_children_append query_all_createButton)
next
  case (Cons i p)
  show ?case
  proof (cases e)
    case (Element t cs ks)
    with Cons.prems have i: "i < length ks" and v: "element_at (ks ! i) p \<noteq> None"
      by (simp_all split: if_splits)
    let ?ks' = "ks[i := appendChild p createButton (ks ! i)]"
    from Cons.IH[OF v] i have "query_all button_selector (?ks' ! i) \<noteq> []" by simp
    moreover have "?ks' ! i \<in> set ?ks'" using i by (simp add: set_update_memI)
    ultimately have "query_children button_selector 0 ?ks' \<noteq> []"
      unfolding query_children_nonempty by blast
    with Element i show ?thesis by simp
  qed
qed

lemma hasButtonInjected_after_append:
  assumes "element_at e p \<noteq> None"
  shows "hasButtonInjected (appendChild p createButton e)"
proof -
  have "query_children button_selector 0 (children (appendChild p createButton e)) \<noteq> []"
  proof (cases e)
    case (Element t cs ks)
    show ?thesis
    proof (cases p)
      case Nil
      with Element show ?thesis by (simp add: query_children_append query_all_createButton)
    next
      case (Cons i q)
      with Element assms have i: "i < length ks" and v: "element_at (ks ! i) q \<noteq> None"
        by (simp_all split: if_splits)
      let ?ks' = "ks[i := appendChild q createButton (ks ! i)]"
      from query_all_appendChild_button[OF v] i
      have "query_all button_selector (?ks' ! i) \<noteq> []" by simp
      moreover have "?ks' ! i \<in> set ?ks'" using i by (simp add: set_update_memI)
      ultimately have "query_children button_selector 0 ?ks' \<noteq> []"
        unfolding query_children_nonempty by blast
      with Element Cons i show ?thesis by simp
    qed
  qed
  then show ?thesis
    by (simp add: hasButtonInjected_def querySelector_def querySelectorAll_def split: list.splits)
qed

lemma query_paths_valid:
  "(p \<in> set (query_all sel e) \<longrightarrow> element_at e p \<noteq> None)"
  "(p \<in> set (query_children sel n ks) \<longrightarrow>
      (\<exists>i r. p = (n + i) # r \<and> i < length ks \<and> element_at (ks ! i) r \<noteq> None))"
proof (induction sel e and sel n ks arbitrary: p and p rule: query_all_query_children.induct)
  case (1 sel t cs ks)
  show ?case
  proof
    assume "p \<in> set (query_all sel (Element t cs ks))"
    then consider "p = []" | "p \<in> set (query_children sel 0 ks)" by (auto split: if_splits)
    then show "element_at (Element t cs ks) p \<noteq> None"
    proof cases
      case 1
      then show ?thesis by simp
    next
      case 2
      with "1.IH"[of p] obtain i r where "p = i # r" "i < length ks" "element_at (ks ! i) r \<noteq> None"
        by auto
      then show ?thesis by simp
    qed
  qed
next
  case (2 sel i)
  show ?case by simp
next
  case (3 sel i k ks)
  show ?case
  proof
    assume "p \<in> set (query_children sel i (k # ks))"
    then consider r where "p = i # r" "r \<in> set (query_all sel k)"
      | "p \<in> set (query_children sel (Suc i) ks)" by auto
    then show "\<exists>j r. p = (i + j) # r \<and> j < length (k # ks) \<and> element_at ((k # ks) ! j) r \<noteq> None"
    proof cases
      case 1
      with "3.IH"(1)[of r] have "element_at k r \<noteq> None" by simp
      with 1 show ?thesis by (intro exI[of _ 0] exI[of _ r]) simp
    next
      case 2
      with "3.IH"(2)[of p] obtain j r where "p = (Suc i + j) # r" "j < length ks"
        "element_at (ks ! j) r \<noteq> None" by auto
      then show ?thesis by (intro exI[of _ "Suc j"] exI[of _ r]) simp
    qed
  qed
qed

lemma findInsertionPoint_valid: "element_at e (findInsertionPoint e) \<noteq> None"
proof -
  have q: "querySelector sel e = Some p \<Longrightarrow> element_at e p \<noteq> None" for sel p
  proof -
    assume "querySelector sel e = Some p"
    then have "p \<in> set (query_children sel 0 (children e))"
      by (auto simp: querySelector_def querySelectorAll_def split: list.splits)
    with query_paths_valid(2)[of p sel 0 "children e"]
    obtain i r where "p = i # r" "i < length (children e)" "element_at (children e ! i) r \<noteq> None"
      by auto
    then show ?thesis by simp
  qed
  show ?thesis
    by (auto simp: findInsertionPoint_def split: option.splits dest: q)
qed


lemma element_at_appendChild_below:
  "element_at d p = Some e \<Longrightarrow>
     element_at (appendChild (p @ r) new d) p = Some (appendChild r new e)"
proof (induction p arbitrary: d)
  case Nil
  then show ?case by simp
next
  case (Cons i p)
  then show ?case by (cases d) (simp split: if_splits)
qed

lemma element_at_appendChild:
  "element_at d p = Some e \<Longrightarrow>
     \<exists>e'. element_at (appendChild q new d) p = Some e' \<and> (e' = e \<or> (\<exists>q'. e' = appendChild q' new e))"
proof (induction p arbitrary: d q)
  case Nil
  then show ?case by auto
next
  case (Cons i p)
  show ?case
  proof (cases d)
    case (Element t cs ks)
    with Cons.prems have i: "i < length ks" and at: "element_at (ks ! i) p = Some e"
      by (simp_all split: if_splits)
    show ?thesis
    proof (cases q)
      case Nil
      with Element i at show ?thesis by (simp add: nth_append)
    next
      case q: (Cons j q')
      show ?thesis
      proof (cases "j < length ks \<and> j = i")
        case True
        from Cons.IH[OF at, of q'] Element q True i show ?thesis by simp
      next
        case False
        with Element q i at show ?thesis by auto
      qed
    qed
  qed
qed

lemma inject_button_valid:
  "element_at doc p \<noteq> None \<Longrightarrow> element_at (inject_button q doc) p \<noteq> None"
  using element_at_appendChild[of doc p]
  by (fastforce simp: inject_button_def split: option.splits)

lemma inject_button_covered:
  assumes "covered doc p"
  shows "covered (inject_button q doc) p"
proof -
  from assms obtain box where box: "element_at doc p = Some box" "hasButtonInjected box"
    by (auto simp: covered_def split: option.splits)
  have "covered (appendChild r createButton doc) p" for r
  proof -
    from element_at_appendChild[OF box(1), of r createButton]
    obtain e' where "element_at (appendChild r createButton doc) p = Some e'"
      "e' = box \<or> (\<exists>q'. e' = appendChild q' createButton box)" by blast
    with box(2) show ?thesis
      by (auto simp: covered_def hasButtonInjected_appendChild)
  qed
  with assms show ?thesis
    by (simp add: inject_button_def split: option.splits)
qed

lemma inject_button_covers:
  assumes "element_at doc q \<noteq> None"
  shows "covered (inject_button q doc) q"
proof -
  from assms obtain box where box: "element_at doc q = Some box" by auto
  show ?thesis
  proof (cases "hasButtonInjected box")
    case True
    with box show ?thesis by (simp add: inject_button_def covered_def)
  next
    case False
    from element_at_appendChild_below[OF box, of "findInsertionPoint box" createButton]
      hasButtonInjected_after_append[OF findInsertionPoint_valid[of box]]
    have "covered (appendChild (q @ findInsertionPoint box) createButton doc) q"
      by (simp add: covered_def)
    with box False show ?thesis by (simp add: inject_button_def)
  qed
qed

lemma inject_button_skip: "covered doc q \<Longrightarrow> inject_button q doc = doc"
  by (auto simp: covered_def inject_button_def split: option.splits)

lemma findCommentBoxes_inject_button:
  "findCommentBoxes (inject_button q doc) = findCommentBoxes doc"
  by (simp add: inject_button_def findCommentBoxes_def query_all_appendChild_none
        createButton_no_commentBox split: option.splits)

lemma findCommentBoxes_fold:
  "findCommentBoxes (fold inject_button ps doc) = findCommentBoxes doc"
  by (induction ps arbitrary: doc) (simp_all add: findCommentBoxes_inject_button)

lemma fold_covered:
  "covered doc p \<Longrightarrow> covered (fold inject_button ps doc) p"
  by (induction ps arbitrary: doc) (simp_all add: inject_button_covered)

lemma fold_covers:
  "\<forall>p\<in>set ps. element_at doc p \<noteq> None \<Longrightarrow> \<forall>p\<in>set ps. covered (fold inject_button ps doc) p"
proof (induction ps arbitrary: doc)
  case Nil
  then show ?case by simp
next
  case (Cons q ps)
  from Cons.prems have "\<forall>p\<in>set ps. element_at (inject_button q doc) p \<noteq> None"
    by (simp add: inject_button_valid)
  from Cons.IH[OF this] have rest: "\<forall>p\<in>set ps. covered (fold inject_button ps (inject_button q doc)) p" .
  from Cons.prems have "covered (inject_button q doc) q" by (simp add: inject_button_covers)
  then have "covered (fold inject_button ps (inject_button q doc)) q" by (rule fold_covered)
  with rest show ?case by simp
qed

lemma fold_skip: "\<forall>p\<in>set ps. covered doc p \<Longrightarrow> fold inject_button ps doc = doc"
  by (induction ps) (simp_all add: inject_button_skip)

lemma findCommentBoxes_valid: "p \<in> set (findCommentBoxes doc) \<Longrightarrow> element_at doc p \<noteq> None"
  using query_paths_valid(1)[of p commentBox_selector doc] by (simp add: findCommentBoxes_def)

lemma injectButtons_covers: "\<forall>p\<in>set (findCommentBoxes doc). covered (injectButtons doc) p"
  unfolding injectButtons_def by (rule fold_covers) (simp add: findCommentBoxes_valid)

lemma injectButtons_idem: "injectButtons (injectButtons doc) = injectButtons doc"
proof -
  have "findCommentBoxes (injectButtons doc) = findCommentBoxes doc"
    by (simp add: injectButtons_def findCommentBoxes_fold)
  then have "injectButtons (injectButtons doc)
               = fold inject_button (findCommentBoxes doc) (injectButtons doc)"
    by (simp add: injectButtons_def)
  also have "\<dots> = injectButtons doc"
    by (rule fold_skip) (rule injectButtons_covers)
  finally show ?thesis .
qed

lemma injectButtons_funpow: "0 < n \<Longrightarrow> (injectButtons ^^ n) doc = injectButtons doc"
proof (induction n)
  case 0
  then show ?case by simp
next
  case (Suc n)
  then show ?case by (cases n) (simp_all add: injectButtons_idem)
qed

lemma covered_button_count: "covered doc p \<longleftrightarrow> 1 \<le> button_count doc p"
  by (auto simp: covered_def button_count_def hasButtonInjected_def querySelector_def
           split: option.splits list.splits)


lemma length_query_children_update:
  "i < length ks \<Longrightarrow>
     length (query_children sel n (ks[i := k'])) + length (query_all sel (ks ! i))
       = length (query_children sel n ks) + length (query_all sel k')"
proof (induction ks arbitrary: n i)
  case Nil
  then show ?case by simp
next
  case (Cons k ks)
  show ?case
  proof (cases i)
    case 0
    then show ?thesis by simp
  next
    case (Suc j)
    with Cons.prems have "j < length ks" by simp
    from Cons.IH[OF this, of "Suc n"] Suc show ?thesis by simp
  qed
qed

lemma length_query_all_appendChild:
  "element_at e p \<noteq> None \<Longrightarrow>
     length (query_all sel (appendChild p new e)) = length (query_all sel e) + length (query_all sel new)"
proof (induction p arbitrary: e)
  case Nil
  show ?case by (cases e) (simp add: query_children_append)
next
  case (Cons i p)
  show ?case
  proof (cases e)
    case (Element t cs ks)
    with Cons.prems have i: "i < length ks" and v: "element_at (ks ! i) p \<noteq> None"
      by (simp_all split: if_splits)
    from length_query_children_update[OF i, of sel 0 "appendChild p new (ks ! i)"] Cons.IH[OF v]
    show ?thesis using Element i by simp
  qed
qed

lemma length_querySelectorAll_appendChild:
  assumes "element_at e p \<noteq> None"
  shows "length (querySelectorAll sel (appendChild p new e))
           = length (querySelectorAll sel e) + length (query_all sel new)"
proof (cases e)
  case (Element t cs ks)
  show ?thesis
  proof (cases p)
    case Nil
    with Element show ?thesis by (simp add: querySelectorAll_def query_children_append)
  next
    case (Cons i q)
    with Element assms have i: "i < length ks" and v: "element_at (ks ! i) q \<noteq> None"
      by (simp_all split: if_splits)
    from length_query_children_update[OF i, of sel 0 "appendChild q new (ks ! i)"]
      length_query_all_appendChild[OF v, of sel new]
    show ?thesis using Element Cons i by (simp add: querySelectorAll_def)
  qed
qed

lemma element_at_appendChild_other:
  "element_at d p \<noteq> None \<Longrightarrow> \<not> prefix p q \<Longrightarrow> element_at (appendChild q new d) p = element_at d p"
proof (induction p arbitrary: d q)
  case Nil
  then show ?case by simp
next
  case (Cons i p)
  show ?case
  proof (cases d)
    case (Element t cs ks)
    with Cons.prems have i: "i < length ks" and v: "element_at (ks ! i) p \<noteq> None"
      by (simp_all split: if_splits)
    show ?thesis
    proof (cases q)
      case Nil
      with Element i show ?thesis by (simp add: nth_append)
    next
      case q: (Cons j q')
      show ?thesis
      proof (cases "j = i")
        case True
        with Cons.prems(2) q have "\<not> prefix p q'" by simp
        from Cons.IH[OF v this] Element q True i show ?thesis by simp
      next
        case False
        with Element q i show ?thesis by simp
      qed
    qed
  qed
qed

lemma button_count_inject_self:
  assumes "element_at doc q \<noteq> None" and "button_count doc q = 0"
  shows "button_count (inject_button q doc) q = 1"
proof -
  from assms(1) obtain box where box: "element_at doc q = Some box" by auto
  with assms(2) have none: "querySelectorAll button_selector box = []"
    by (simp add: button_count_def)
  then have nb: "\<not> hasButtonInjected box"
    by (simp add: hasButtonInjected_def querySelector_def)
  from element_at_appendChild_below[OF box, of "findInsertionPoint box" createButton]
    length_querySelectorAll_appendChild[OF findInsertionPoint_valid[of box], of button_selector createButton]
    none
  have "button_count (appendChild (q @ findInsertionPoint box) createButton doc) q = 1"
    by (simp add: button_count_def query_all_createButton)
  with box nb show ?thesis by (simp add: inject_button_def)
qed

lemma button_count_inject_other:
  assumes "element_at doc p \<noteq> None" and "\<not> prefix p q" and "\<not> prefix q p"
  shows "button_count (inject_button q doc) p = button_count doc p"
proof -
  have "\<not> prefix p (q @ r)" for r
    using assms(2,3) by (auto simp: prefix_append)
  from element_at_appendChild_other[OF assms(1) this]
  show ?thesis
    by (simp add: inject_button_def button_count_def split: option.splits)
qed

lemma fold_exactly_one:
  assumes "not_nested bs" and "set ps \<subseteq> set bs"
    and "\<forall>p\<in>set bs. element_at doc p \<noteq> None \<and> button_count doc p \<le> 1"
  shows "(\<forall>p\<in>set bs. element_at (fold inject_button ps doc) p \<noteq> None
            \<and> button_count (fold inject_button ps doc) p \<le> 1)
       \<and> (\<forall>p\<in>set ps. button_count (fold inject_button ps doc) p = 1)"
  using assms(2,3)
proof (induction ps arbitrary: doc)
  case Nil
  then show ?case by simp
next
  case (Cons q ps)
  from Cons.prems have q: "q \<in> set bs" and v: "element_at doc q \<noteq> None"
    and le: "button_count doc q \<le> 1" by auto
  have step: "\<forall>p\<in>set bs. element_at (inject_button q doc) p \<noteq> None
                \<and> button_count (inject_button q doc) p \<le> 1"
    and self: "button_count (inject_button q doc) q = 1"
  proof -
    show self: "button_count (inject_button q doc) q = 1"
    proof (cases "button_count doc q = 0")
      case True
      with v show ?thesis by (rule button_count_inject_self)
    next
      case False
      with le have one: "button_count doc q = 1" by simp
      then have "covered doc q" by (simp add: covered_button_count)
      with one show ?thesis by (simp add: inject_button_skip)
    qed
    show "\<forall>p\<in>set bs. element_at (inject_button q doc) p \<noteq> None
                \<and> button_count (inject_button q doc) p \<le> 1"
    proof
      fix p assume p: "p \<in> set bs"
      with Cons.prems have vp: "element_at doc p \<noteq> None" and lp: "button_count doc p \<le> 1"
        by auto
      show "element_at (inject_button q doc) p \<noteq> None \<and> button_count (inject_button q doc) p \<le> 1"
      proof (cases "p = q")
        case True
        with self vp show ?thesis by (simp add: inject_button_valid)
      next
        case False
        with assms(1) p q have "\<not> prefix p q" "\<not> prefix q p"
          by (auto simp: not_nested_def)
        from button_count_inject_other[OF vp this] lp vp show ?thesis
          by (simp add: inject_button_valid)
      qed
    qed
  qed
  from Cons.prems have sub: "set ps \<subseteq> set bs" by simp
  from Cons.IH[OF sub step]
  have rest: "\<forall>p\<in>set bs. element_at (fold inject_button ps (inject_button q doc)) p \<noteq> None
                \<and> button_count (fold inject_button ps (inject_button q doc)) p \<le> 1"
    and ones: "\<forall>p\<in>set ps. button_count (fold inject_button ps (inject_button q doc)) p = 1"
    by simp_all
  from self have "covered (inject_button q doc) q" by (simp add: covered_button_count)
  then have "covered (fold inject_button ps (inject_button q doc)) q" by (rule fold_covered)
  then have "1 \<le> button_count (fold inject_button ps (inject_button q doc)) q"
    by (simp add: covered_button_count)
  with rest q have "button_count (fold inject_button ps (inject_button q doc)) q = 1"
    by (metis le_antisym)
  with rest ones show ?case by simp
qed

lemma injectButtons_exactly_one:
  assumes "not_nested (findCommentBoxes doc)"
    and "\<forall>p\<in>set (findCommentBoxes doc). button_count doc p \<le> 1"
  shows "\<forall>p\<in>set (findCommentBoxes doc). button_count (injectButtons doc) p = 1"
  using fold_exactly_one[OF assms(1) subset_refl, of doc] assms(2)
  by (simp add: injectButtons_def findCommentBoxes_valid)

lemma sample_page_boxes: "findCommentBoxes sample_page = [[0], [1]]"
  by code_simp

lemma sample_page_not_nested: "not_nested (findCommentBoxes sample_page)"
  unfolding sample_page_boxes by (simp add: not_nested_def)

lemma sample_page_counts: "\<forall>p\<in>set (findCommentBoxes sample_page). button_count sample_page p \<le> 1"
  unfolding sample_page_boxes by code_simp

text \<open>
  What the scan pass does achieve. For every document and every \<open>N \<ge> 1\<close>, running
  \<open>injectButtons\<close> \<open>N\<close> times gives the same document as running it once. That document has
  the same comment boxes, and every one of them contains at least one action control; when no
  comment box is nested inside another and none held more than one control to begin with,
  every one contains exactly one. A box that already contains a control is skipped.
\<close>

theorem scan_pass_idempotent:
  assumes "0 < n"
  shows "(injectButtons ^^ n) doc = injectButtons doc
       \<and> findCommentBoxes ((injectButtons ^^ n) doc) = findCommentBoxes doc
       \<and> (\<forall>p\<in>set (findCommentBoxes doc). 1 \<le> button_count ((injectButtons ^^ n) doc) p)
       \<and> (not_nested (findCommentBoxes doc)
            \<and> (\<forall>p\<in>set (findCommentBoxes doc). button_count doc p \<le> 1) \<longrightarrow>
          (\<forall>p\<in>set (findCommentBoxes doc). button_count ((injectButtons ^^ n) doc) p = 1))
       \<and> (\<forall>p. 1 \<le> button_count doc p \<longrightarrow> inject_button p doc = doc)"
proof -
  from assms have n: "(injectButtons ^^ n) doc = injectButtons doc"
    by (rule injectButtons_funpow)
  have boxes: "findCommentBoxes (injectButtons doc) = findCommentBoxes doc"
    by (simp add: injectButtons_def findCommentBoxes_fold)
  have least: "\<forall>p\<in>set (findCommentBoxes doc). 1 \<le> button_count (injectButtons doc) p"
    using injectButtons_covers[of doc] by (simp add: covered_button_count)
  have skip: "\<forall>p. 1 \<le> button_count doc p \<longrightarrow> inject_button p doc = doc"
    by (metis covered_button_count inject_button_skip)
  from n boxes least skip injectButtons_exactly_one[of doc] show ?thesis
    by simp
qed

theorem scan_pass_idempotent_witness:
  "(injectButtons ^^ 3) sample_page = injectButtons sample_page
   \<and> findCommentBoxes sample_page = [[0], [1]]
   \<and> button_count sample_page [0] = 0
   \<and> button_count ((injectButtons ^^ 3) sample_page) [0] = 1
   \<and> button_count ((injectButtons ^^ 3) sample_page) [1] = 1"
proof -
  have zero: "button_count sample_page [0] = 0" by code_simp
  have pos: "(0::nat) < 3" by simp
  from scan_pass_idempotent[OF pos, of sample_page] sample_page_not_nested sample_page_counts
  have "(injectButtons ^^ 3) sample_page = injectButtons sample_page"
    and "\<forall>p\<in>set (findCommentBoxes sample_page). button_count ((injectButtons ^^ 3) sample_page) p = 1"
    by blast+
  with zero show ?thesis unfolding sample_page_boxes by simp
qed

text \<open>
  C8. The scan pass is to leave exactly one action control in every comment box. Its check,
  \<open>hasButtonInjected\<close>, is made when a box is reached, and misses a control added later for
  a box nested inside it. On the page whose comment box holds a toolbar and,
  beside it, a nested form that is a comment box of its own, neither box holds a control at
  first; one pass puts a control in the toolbar for the outer box and then a second one in the
  form, so the outer box ends with two. Where the nested form holds the toolbar, or there is
  no toolbar, the same pass leaves exactly one control in each box.
\<close>

theorem nested_comment_box_gets_two_controls:
  "findCommentBoxes nested_page = [[0], [0, 1]]
   \<and> button_count nested_page [0] = 0
   \<and> button_count nested_page [0, 1] = 0
   \<and> button_count (injectButtons nested_page) [0] = 2
   \<and> button_count (injectButtons nested_page) [0, 1] = 1
   \<and> findCommentBoxes linkedin_page = [[0], [0, 0]]
   \<and> button_count (injectButtons linkedin_page) [0] = 1
   \<and> button_count (injectButtons linkedin_page) [0, 0] = 1
   \<and> button_count (injectButtons linkedin_page_no_toolbar) [0] = 1
   \<and> button_count (injectButtons linkedin_page_no_toolbar) [0, 0] = 1"
  by code_simp

end
